theory Spec2Isabelle
  imports Main "HOL-Library.Word" "HOL-Library.Sublist"
begin

section \<open>The action handlers of the clipboard tool (actions.cpp)\<close>

text \<open>
  The handlers of namespace \<open>PerformAction\<close> work on process-wide globals (\<open>copying\<close>,
  \<open>successes\<close>, \<open>path\<close>, \<open>action\<close>, \<open>io_type\<close>) and on the filesystem, through
  \<open>std::filesystem\<close>, \<open>std::regex\<close> and helpers declared in \<open>clipboard.hpp\<close>. The
  embedding passes the globals as a state record, takes the library and the helpers as an
  environment record of functions over an arbitrary filesystem type \<open>'fs\<close>, and turns
  every \<open>fs::filesystem_error\<close> into a value: a computation returns \<open>Inl code\<close> where
  the C++ throws, together with the state reached at that moment.
\<close>

subsection \<open>Paths\<close>

text \<open>
  \<open>fs::path\<close> in its generic (POSIX) format, as the string it holds. \<open>filename\<close> is
  the text after the last separator (empty for a path that ends in a separator and for
  the root); \<open>parent_path\<close> is the text up to the end of the last component but one,
  and the path itself when it has no relative part; \<open>path_append\<close> is \<open>operator/\<close>.
\<close>

type_synonym path = string

definition separator :: char where
  "separator = CHR ''/''"

definition filename :: "path \<Rightarrow> path" where
  "filename p = rev (takeWhile (\<lambda>c. c \<noteq> separator) (rev p))"

definition parent_path :: "path \<Rightarrow> path" where
  "parent_path p =
     (if list_all (\<lambda>c. c = separator) p then p
      else let d = dropWhile (\<lambda>c. c \<noteq> separator) (rev p);
               stripped = dropWhile (\<lambda>c. c = separator) d
           in if stripped = [] then (if d = [] then [] else [separator]) else rev stripped)"

definition path_append :: "path \<Rightarrow> path \<Rightarrow> path" where
  "path_append p q =
     (if q \<noteq> [] \<and> hd q = separator then q
      else if p = [] \<or> last p = separator then p @ q
      else p @ [separator] @ q)"

subsection \<open>Error codes, options, policies\<close>

text \<open>The \<open>std::error_code\<close> carried by a \<open>fs::filesystem_error\<close>.\<close>

datatype errc =
  cross_device_link | permission_denied | no_such_file_or_directory | file_exists
  | no_space_on_device | io_error | other_errc nat

text \<open>What ends a handler other than returning: an exception nobody catches, or \<open>exit\<close>.\<close>

datatype abort = filesystem_error errc | regex_error | exit_call int

definition EXIT_FAILURE :: int where
  "EXIT_FAILURE = 1"

text \<open>\<open>fs::copy_options\<close> is a bit mask; a mask is the set of its bits, \<open>|\<close> is insertion.\<close>

datatype copy_option =
  skip_existing | overwrite_existing | update_existing | recursive | copy_symlinks
  | skip_symlinks | directories_only | create_symlinks | create_hard_links

text \<open>
  Modelled from the spec: the declarations of \<open>CopyPolicy\<close>, \<open>Action\<close> and \<open>IOType\<close>
  are in \<open>clipboard.hpp\<close>. The policy has the four values of the spec's ConflictPolicy;
  \<open>Unknown\<close> is the state in which no decision is stored yet (the spec's Ask), which
  \<open>paste\<close> handles in its \<open>default\<close> branch together with the two once-values.
\<close>

datatype CopyPolicy = ReplaceAll | ReplaceOnce | SkipOnce | SkipAll | Unknown

datatype Action = Cut | Copy | Paste | Clear | Show | Edit | Add | Remove | Note | Swap
  | Status | Info | Load

datatype IOType = File | Pipe | Text

subsection \<open>The globals\<close>

text \<open>
  The counters of \<open>successes\<close> are taken as unsigned 64-bit integers (their declaration
  is in \<open>clipboard.hpp\<close>); the fields from \<open>items\<close> to \<open>opts\<close> are those of
  \<open>copying\<close>, the last three the paths \<open>path.data\<close>, \<open>path.data.raw\<close> and
  \<open>path.metadata.originals\<close>. \<open>calls\<close> and \<open>prompts\<close>
  are not variables of the program: they log, in order, every filesystem call and every
  invocation of \<open>userDecision\<close> (with the filename shown to the user), so that what a
  handler did can be stated.
\<close>

datatype fs_call =
  Current_path | Directory_iterator path | Is_directory path | Is_regular_file path
  | Exists path | Equivalent path path | Absolute path | Create_directories path
  | Copy_call path path "copy_option set" | Remove_all path
  | File_contents path | Write_to_file path string bool

record Successes =
  files :: "64 word"
  directories :: "64 word"
  bytes :: "64 word"

record 'fs state =
  fs :: 'fs
  calls :: "fs_call list"
  prompts :: "string list"
  successes :: Successes
  items :: "path list"
  failedItems :: "(string \<times> errc) list"
  policy :: CopyPolicy
  use_safe_copy :: bool
  opts :: "copy_option set"
  action :: Action
  io_type :: IOType
  path_data :: path
  path_data_raw :: path
  path_metadata_originals :: path

subsection \<open>The collaborators\<close>

text \<open>
  The \<open>std::filesystem\<close> calls: a query returns its answer or the error code it throws
  with; a mutating call returns the filesystem it leaves behind and the error code, if it
  throws. \<open>fs_directory_iterator\<close> lists the entries of a directory as the loop will
  visit them. \<open>regex_compile\<close> is the constructor of \<open>std::regex\<close> (\<open>None\<close> where it
  throws \<open>std::regex_error\<close>), \<open>regex_match\<close> and \<open>regex_replace\<close> are the functions
  of these names. \<open>userDecision\<close>, \<open>writeToFile\<close>, \<open>fileContents\<close>, \<open>pipedInContent\<close>
  and \<open>removeOldFiles\<close> are helpers of the program defined outside \<open>actions.cpp\<close>;
  the answer of the user may depend on the prompts made so far.
\<close>

record ('fs, 'r) env =
  fs_current_path :: "'fs \<Rightarrow> errc + path"
  fs_directory_iterator :: "'fs \<Rightarrow> path \<Rightarrow> errc + path list"
  fs_is_directory :: "'fs \<Rightarrow> path \<Rightarrow> errc + bool"
  fs_is_regular_file :: "'fs \<Rightarrow> path \<Rightarrow> errc + bool"
  fs_exists :: "'fs \<Rightarrow> path \<Rightarrow> errc + bool"
  fs_equivalent :: "'fs \<Rightarrow> path \<Rightarrow> path \<Rightarrow> errc + bool"
  fs_absolute :: "'fs \<Rightarrow> path \<Rightarrow> errc + path"
  fs_create_directories :: "'fs \<Rightarrow> path \<Rightarrow> 'fs \<times> errc option"
  fs_copy :: "'fs \<Rightarrow> path \<Rightarrow> path \<Rightarrow> copy_option set \<Rightarrow> 'fs \<times> errc option"
  fs_remove_all :: "'fs \<Rightarrow> path \<Rightarrow> 'fs \<times> errc option"
  regex_compile :: "string \<Rightarrow> 'r option"
  regex_match :: "string \<Rightarrow> 'r \<Rightarrow> bool"
  regex_replace :: "string \<Rightarrow> 'r \<Rightarrow> string \<Rightarrow> string"
  userDecision :: "string list \<Rightarrow> string \<Rightarrow> CopyPolicy"
  writeToFile :: "'fs \<Rightarrow> path \<Rightarrow> string \<Rightarrow> bool \<Rightarrow> 'fs"
  fileContents :: "'fs \<Rightarrow> path \<Rightarrow> string"
  pipedInContent :: string
  removeOldFiles :: "'fs state \<Rightarrow> 'fs state"

subsection \<open>Computations that may throw\<close>

type_synonym ('a, 'fs) throwing = "'fs state \<Rightarrow> (errc + 'a) \<times> 'fs state"

definition returns :: "'a \<Rightarrow> ('a, 'fs) throwing" where
  "returns v s = (Inr v, s)"

definition seq :: "('a, 'fs) throwing \<Rightarrow> ('a \<Rightarrow> ('b, 'fs) throwing) \<Rightarrow> ('b, 'fs) throwing" where
  "seq m k s = (case m s of (Inl e, s') \<Rightarrow> (Inl e, s') | (Inr v, s') \<Rightarrow> k v s')"

definition record_call :: "fs_call \<Rightarrow> 'fs state \<Rightarrow> 'fs state" where
  "record_call c s = s\<lparr>calls := calls s @ [c]\<rparr>"

definition query :: "fs_call \<Rightarrow> ('fs \<Rightarrow> errc + 'a) \<Rightarrow> ('a, 'fs) throwing" where
  "query c q s = (q (fs s), record_call c s)"

definition mutate :: "fs_call \<Rightarrow> ('fs \<Rightarrow> 'fs \<times> errc option) \<Rightarrow> (unit, 'fs) throwing" where
  "mutate c m s =
     (case m (fs s) of
        (fs', None) \<Rightarrow> (Inr (), (record_call c s)\<lparr>fs := fs'\<rparr>)
      | (fs', Some e) \<Rightarrow> (Inl e, (record_call c s)\<lparr>fs := fs'\<rparr>))"

definition is_directory :: "('fs, 'r) env \<Rightarrow> path \<Rightarrow> (bool, 'fs) throwing" where
  "is_directory env p = query (Is_directory p) (\<lambda>f. fs_is_directory env f p)"

definition is_regular_file :: "('fs, 'r) env \<Rightarrow> path \<Rightarrow> (bool, 'fs) throwing" where
  "is_regular_file env p = query (Is_regular_file p) (\<lambda>f. fs_is_regular_file env f p)"

definition exists :: "('fs, 'r) env \<Rightarrow> path \<Rightarrow> (bool, 'fs) throwing" where
  "exists env p = query (Exists p) (\<lambda>f. fs_exists env f p)"

definition equivalent :: "('fs, 'r) env \<Rightarrow> path \<Rightarrow> path \<Rightarrow> (bool, 'fs) throwing" where
  "equivalent env p q = query (Equivalent p q) (\<lambda>f. fs_equivalent env f p q)"

definition absolute :: "('fs, 'r) env \<Rightarrow> path \<Rightarrow> (path, 'fs) throwing" where
  "absolute env p = query (Absolute p) (\<lambda>f. fs_absolute env f p)"

definition current_path :: "('fs, 'r) env \<Rightarrow> (path, 'fs) throwing" where
  "current_path env = query Current_path (fs_current_path env)"

definition directory_iterator :: "('fs, 'r) env \<Rightarrow> path \<Rightarrow> (path list, 'fs) throwing" where
  "directory_iterator env p = query (Directory_iterator p) (\<lambda>f. fs_directory_iterator env f p)"

definition create_directories :: "('fs, 'r) env \<Rightarrow> path \<Rightarrow> (unit, 'fs) throwing" where
  "create_directories env p = mutate (Create_directories p) (\<lambda>f. fs_create_directories env f p)"

definition copy_call :: "('fs, 'r) env \<Rightarrow> path \<Rightarrow> path \<Rightarrow> copy_option set \<Rightarrow> (unit, 'fs) throwing" where
  "copy_call env p q os = mutate (Copy_call p q os) (\<lambda>f. fs_copy env f p q os)"

definition remove_all :: "('fs, 'r) env \<Rightarrow> path \<Rightarrow> (unit, 'fs) throwing" where
  "remove_all env p = mutate (Remove_all p) (\<lambda>f. fs_remove_all env f p)"

definition write_to_file :: "('fs, 'r) env \<Rightarrow> path \<Rightarrow> string \<Rightarrow> bool \<Rightarrow> 'fs state \<Rightarrow> 'fs state" where
  "write_to_file env p content app s =
     (record_call (Write_to_file p content app) s)\<lparr>fs := writeToFile env (fs s) p content app\<rparr>"

definition record_failure :: "string \<Rightarrow> errc \<Rightarrow> 'fs state \<Rightarrow> 'fs state" where
  "record_failure label e s = s\<lparr>failedItems := failedItems s @ [(label, e)]\<rparr>"

text \<open>
  Modelled from the spec: \<open>incrementSuccessesForItem\<close> is defined outside
  \<open>actions.cpp\<close>. On success the matching counter goes up by one: the directory count
  for a directory, the file count otherwise. The kind is read from the filesystem; the
  helper itself never fails.
\<close>

definition incrementSuccessesForItem :: "('fs, 'r) env \<Rightarrow> path \<Rightarrow> 'fs state \<Rightarrow> 'fs state" where
  "incrementSuccessesForItem env item s =
     (let s' = record_call (Is_directory item) s; su = successes s'
      in if fs_is_directory env (fs s') item = Inr True
         then s'\<lparr>successes := su\<lparr>directories := directories su + 1\<rparr>\<rparr>
         else s'\<lparr>successes := su\<lparr>files := files su + 1\<rparr>\<rparr>)"

subsection \<open>copyItem and copy\<close>

text \<open>The name under which \<open>copyItem\<close> stores a directory (line 29).\<close>

definition directory_target :: "path \<Rightarrow> path" where
  "directory_target f = (if filename f = [] then filename (parent_path f) else filename f)"

text \<open>The lambda \<open>actuallyCopyItem\<close> of \<open>copyItem\<close>.\<close>

definition actuallyCopyItem :: "('fs, 'r) env \<Rightarrow> path \<Rightarrow> bool \<Rightarrow> (unit, 'fs) throwing" where
  "actuallyCopyItem env f use_regular_copy =
     seq (is_directory env f) (\<lambda>dir.
     seq (if dir
          then (\<lambda>s. seq (create_directories env (path_append (path_data s) (directory_target f)))
                  (\<lambda>_ s'. copy_call env f (path_append (path_data s') (directory_target f)) (opts s') s') s)
          else (\<lambda>s. copy_call env f (path_append (path_data s) (filename f))
                  (if use_regular_copy then opts s else insert create_hard_links (opts s)) s)) (\<lambda>_.
     seq (\<lambda>s. returns () (incrementSuccessesForItem env f s)) (\<lambda>_ s.
       if action s = Cut
       then seq (absolute env f)
              (\<lambda>a s'. returns () (write_to_file env (path_metadata_originals s') (a @ [CHR 0x0A]) True s')) s
       else returns () s)))"

definition copyItem :: "('fs, 'r) env \<Rightarrow> path \<Rightarrow> 'fs state \<Rightarrow> 'fs state" where
  "copyItem env f s =
     (case actuallyCopyItem env f (use_safe_copy s) s of
        (Inr _, s1) \<Rightarrow> s1
      | (Inl e, s1) \<Rightarrow>
          if \<not> use_safe_copy s1 \<and> e = cross_device_link
          then (case actuallyCopyItem env f True s1 of
                  (Inr _, s2) \<Rightarrow> s2
                | (Inl e2, s2) \<Rightarrow> record_failure f e2 s2)
          else record_failure f e s1)"

definition copy :: "('fs, 'r) env \<Rightarrow> 'fs state \<Rightarrow> 'fs state" where
  "copy env s = fold (copyItem env) (items s) s"

subsection \<open>paste\<close>

text \<open>
  The filter patterns: \<open>std::transform\<close> builds one \<open>std::regex\<close> per item, in order,
  and the first constructor that throws ends it.
\<close>

fun compile_all :: "(string \<Rightarrow> 'r option) \<Rightarrow> string list \<Rightarrow> 'r list option" where
  "compile_all c [] = Some []"
| "compile_all c (p # ps) =
     (case c p of
        None \<Rightarrow> None
      | Some r \<Rightarrow> (case compile_all c ps of None \<Rightarrow> None | Some rs \<Rightarrow> Some (r # rs)))"

text \<open>The lambda \<open>pasteItem\<close> of \<open>paste\<close>; \<open>&&\<close> and \<open>||\<close> evaluate their right operand
  only when needed.\<close>

definition pasteItem :: "('fs, 'r) env \<Rightarrow> path \<Rightarrow> path \<Rightarrow> bool \<Rightarrow> (unit, 'fs) throwing" where
  "pasteItem env entry target use_regular_copy =
     seq (exists env target) (\<lambda>present.
     seq (if present then equivalent env entry target else returns False) (\<lambda>same.
     seq (if \<not> same
          then seq (if use_regular_copy then returns True else is_directory env entry) (\<lambda>regular s.
                 copy_call env entry target
                   (if regular then opts s else insert create_hard_links (opts s)) s)
          else returns ()) (\<lambda>_ s.
     returns () (incrementSuccessesForItem env entry s))))"

text \<open>
  The prompt: \<open>copying.policy = userDecision(filename)\<close>. The progress indicator that is
  stopped and restarted around it writes to the terminal only and is left out.
\<close>

definition askUser :: "('fs, 'r) env \<Rightarrow> string \<Rightarrow> 'fs state \<Rightarrow> 'fs state" where
  "askUser env name s =
     s\<lparr>policy := userDecision env (prompts s) name, prompts := prompts s @ [name]\<rparr>"

text \<open>The body of the \<open>try\<close> block (lines 87 to 106).\<close>

definition paste_try :: "('fs, 'r) env \<Rightarrow> path \<Rightarrow> path \<Rightarrow> (unit, 'fs) throwing" where
  "paste_try env entry target =
     seq (exists env target) (\<lambda>present s.
       if present
       then (case policy s of
               SkipAll \<Rightarrow> returns () s
             | ReplaceAll \<Rightarrow> pasteItem env entry target (use_safe_copy s) s
             | _ \<Rightarrow>
                 (let s' = askUser env (filename entry) s
                  in if policy s' = ReplaceOnce \<or> policy s' = ReplaceAll
                     then pasteItem env entry target (use_safe_copy s') s'
                     else returns () s'))
       else pasteItem env entry target (use_safe_copy s) s)"

text \<open>The \<open>try\<close> statement with its handler (lines 86 to 117).\<close>

definition paste_attempt :: "('fs, 'r) env \<Rightarrow> path \<Rightarrow> path \<Rightarrow> 'fs state \<Rightarrow> 'fs state" where
  "paste_attempt env entry target s =
     (case paste_try env entry target s of
        (Inr _, s1) \<Rightarrow> s1
      | (Inl e, s1) \<Rightarrow>
          if \<not> use_safe_copy s1
          then (case pasteItem env entry target True s1 of
                  (Inr _, s2) \<Rightarrow> s2
                | (Inl e2, s2) \<Rightarrow> record_failure (filename entry) e2 s2)
          else record_failure (filename entry) e s1)"

text \<open>
  One round of the loop over the staging directory. \<open>fs::current_path()\<close> is outside the
  \<open>try\<close>: if it throws, nothing catches it.
\<close>

definition paste_entry ::
  "('fs, 'r) env \<Rightarrow> 'r list \<Rightarrow> path \<Rightarrow> 'fs state \<Rightarrow> abort option \<times> 'fs state" where
  "paste_entry env regexes entry s =
     (case current_path env s of
        (Inl e, s0) \<Rightarrow> (Some (filesystem_error e), s0)
      | (Inr cwd, s0) \<Rightarrow>
          (let target = path_append cwd (filename entry)
           in if regexes \<noteq> [] \<and> \<not> list_ex (regex_match env (filename entry)) regexes
              then (None, s0)
              else (None, paste_attempt env entry target s0)))"

fun paste_loop ::
  "('fs, 'r) env \<Rightarrow> 'r list \<Rightarrow> path list \<Rightarrow> 'fs state \<Rightarrow> abort option \<times> 'fs state" where
  "paste_loop env regexes [] s = (None, s)"
| "paste_loop env regexes (entry # entries) s =
     (case paste_entry env regexes entry s of
        (Some a, s') \<Rightarrow> (Some a, s')
      | (None, s') \<Rightarrow> paste_loop env regexes entries s')"

definition paste :: "('fs, 'r) env \<Rightarrow> 'fs state \<Rightarrow> abort option \<times> 'fs state" where
  "paste env s =
     (case (if items s \<noteq> [] then compile_all (regex_compile env) (items s) else Some []) of
        None \<Rightarrow> (Some regex_error, s)
      | Some regexes \<Rightarrow>
          (case directory_iterator env (path_data s) s of
             (Inl e, s1) \<Rightarrow> (Some (filesystem_error e), s1)
           | (Inr entries, s1) \<Rightarrow>
               (case paste_loop env regexes entries s1 of
                  (Some a, s2) \<Rightarrow> (Some a, s2)
                | (None, s2) \<Rightarrow> (None, removeOldFiles env s2))))"

subsection \<open>removeRegex\<close>

text \<open>Lines 248 to 255: one pattern tried on one entry of the clipboard.\<close>

definition remove_if_match :: "('fs, 'r) env \<Rightarrow> path \<Rightarrow> 'r \<Rightarrow> 'fs state \<Rightarrow> 'fs state" where
  "remove_if_match env entry pattern s =
     (if regex_match env (filename entry) pattern
      then (case seq (remove_all env entry)
                   (\<lambda>_ s'. returns () (incrementSuccessesForItem env entry s')) s of
              (Inr _, s1) \<Rightarrow> s1
            | (Inl e, s1) \<Rightarrow> record_failure (filename entry) e s1)
      else s)"

definition remove_entries :: "('fs, 'r) env \<Rightarrow> 'r list \<Rightarrow> path list \<Rightarrow> 'fs state \<Rightarrow> 'fs state" where
  "remove_entries env regexes entries s =
     fold (\<lambda>entry. fold (remove_if_match env entry) regexes) entries s"

text \<open>Lines 231 and 232: every pattern deleted from the text, one after the other.\<close>

definition replace_all :: "('fs, 'r) env \<Rightarrow> 'r list \<Rightarrow> string \<Rightarrow> string" where
  "replace_all env regexes content = fold (\<lambda>pattern c. regex_replace env c pattern []) regexes content"

text \<open>
  Lines 221 to 225: one pattern from the pipe, or one per item. Before either
  \<open>exit(EXIT_FAILURE)\<close> the handler prints a message on \<open>stderr\<close>; terminal output
  is not part of the state and is left out.
\<close>

definition removal_patterns :: "('fs, 'r) env \<Rightarrow> 'fs state \<Rightarrow> 'r list option" where
  "removal_patterns env s =
     (if io_type s = Pipe
      then (case regex_compile env (pipedInContent env) of None \<Rightarrow> None | Some r \<Rightarrow> Some [r])
      else compile_all (regex_compile env) (items s))"

definition removeRegex :: "('fs, 'r) env \<Rightarrow> 'fs state \<Rightarrow> abort option \<times> 'fs state" where
  "removeRegex env s =
     (case removal_patterns env s of
        None \<Rightarrow> (Some regex_error, s)
      | Some regexes \<Rightarrow>
          (case is_regular_file env (path_data_raw s) s of
             (Inl e, s1) \<Rightarrow> (Some (filesystem_error e), s1)
           | (Inr True, s1) \<Rightarrow>
               (let content = fileContents env (fs s1) (path_data_raw s1);
                    s2 = record_call (File_contents (path_data_raw s1)) s1;
                    oldLength = length content;
                    content' = replace_all env regexes content;
                    su = successes s2;
                    s3 = s2\<lparr>successes :=
                           su\<lparr>bytes := bytes su + (of_nat oldLength - of_nat (length content'))\<rparr>\<rparr>
                in if oldLength \<noteq> length content'
                   then (None, write_to_file env (path_data_raw s3) content' False s3)
                   else (Some (exit_call EXIT_FAILURE), s3))
           | (Inr False, s1) \<Rightarrow>
               (case directory_iterator env (path_data s1) s1 of
                  (Inl e, s2) \<Rightarrow> (Some (filesystem_error e), s2)
                | (Inr entries, s2) \<Rightarrow>
                    (let s3 = remove_entries env regexes entries s2
                     in if directories (successes s3) = 0 \<and> files (successes s3) = 0
                        then (Some (exit_call EXIT_FAILURE), s3)
                        else (None, s3)))))"

subsection \<open>Reading the log\<close>

text \<open>The \<open>fs::copy\<close> calls of a log, in order.\<close>

definition copy_calls :: "fs_call list \<Rightarrow> fs_call list" where
  "copy_calls cs = filter (\<lambda>c. case c of Copy_call _ _ _ \<Rightarrow> True | _ \<Rightarrow> False) cs"

subsection \<open>Sample collaborators\<close>

text \<open>
  Concrete collaborators on which the handlers can be run. The filesystem is the list of
  the paths that exist; a name without a dot is a directory; every call succeeds. The
  patterns are the fragment of regular expressions made of literal characters, the dot
  and the star, and \<open>sample_match\<close> matches a whole string against one; a pattern that
  begins with a star does not compile. \<open>regex_replace\<close> replaces single characters.
  The user answers skip (once) to every prompt.
\<close>

fun sample_match :: "string \<Rightarrow> string \<Rightarrow> bool" where
  "sample_match [] t = (t = [])"
| "sample_match [c] t = (case t of [x] \<Rightarrow> c = CHR ''.'' \<or> c = x | _ \<Rightarrow> False)"
| "sample_match (c # d # p) t =
     (if d = CHR ''*''
      then sample_match p t
           \<or> (case t of [] \<Rightarrow> False
               | x # t' \<Rightarrow> (c = CHR ''.'' \<or> c = x) \<and> sample_match (c # d # p) t')
      else (case t of [] \<Rightarrow> False
            | x # t' \<Rightarrow> (c = CHR ''.'' \<or> c = x) \<and> sample_match (d # p) t'))"

definition sample_env :: "(path list, string) env" where
  "sample_env =
     \<lparr>fs_current_path = (\<lambda>_. Inr ''/home/user''),
      fs_directory_iterator = (\<lambda>_ _. Inr [''/clip/data/apple.txt'', ''/clip/data/banana.txt'']),
      fs_is_directory = (\<lambda>_ p. Inr (CHR ''.'' \<notin> set (filename p))),
      fs_is_regular_file = (\<lambda>present p. Inr (p \<in> set present)),
      fs_exists = (\<lambda>present p. Inr (p \<in> set present)),
      fs_equivalent = (\<lambda>_ p q. Inr (p = q)),
      fs_absolute = (\<lambda>_ p. Inr p),
      fs_create_directories = (\<lambda>present p. (p # present, None)),
      fs_copy = (\<lambda>present p q os. (q # present, None)),
      fs_remove_all = (\<lambda>present p. (removeAll p present, None)),
      regex_compile = (\<lambda>p. if p \<noteq> [] \<and> hd p = CHR ''*'' then None else Some p),
      regex_match = (\<lambda>name r. sample_match r name),
      regex_replace = (\<lambda>c r rep. concat (map (\<lambda>x. if sample_match r [x] then rep else [x]) c)),
      userDecision = (\<lambda>_ _. SkipOnce),
      writeToFile = (\<lambda>present p c a. p # present),
      fileContents = (\<lambda>_ _. ''hello''),
      pipedInContent = [],
      removeOldFiles = (\<lambda>s. s)\<rparr>"

definition sample_state :: "path list state" where
  "sample_state =
     \<lparr>fs = [], calls = [], prompts = [],
      successes = \<lparr>files = 0, directories = 0, bytes = 0\<rparr>,
      items = [], failedItems = [], policy = Unknown, use_safe_copy = False,
      opts = {overwrite_existing, recursive, copy_symlinks},
      action = Paste, io_type = File,
      path_data = ''/clip/data'', path_data_raw = ''/clip/data/rawdata.clipboard'',
      path_metadata_originals = ''/clip/metadata/originals''\<rparr>"

text \<open>Variants: hard links are refused with \<open>permission_denied\<close>; every copy fails with
  \<open>cross_device_link\<close>; staged entries are the same files as the entries of their name
  elsewhere; the user answers skip-all. In \<open>colliding_state\<close> both staged names exist in
  the working directory.\<close>

definition denying_env :: "(path list, string) env" where
  "denying_env =
     sample_env\<lparr>fs_copy := (\<lambda>present p q os.
       if create_hard_links \<in> os then (present, Some permission_denied) else (q # present, None))\<rparr>"

definition cross_device_env :: "(path list, string) env" where
  "cross_device_env = sample_env\<lparr>fs_copy := (\<lambda>present p q os. (present, Some cross_device_link))\<rparr>"

definition linked_env :: "(path list, string) env" where
  "linked_env = sample_env\<lparr>fs_equivalent := (\<lambda>_ p q. Inr (filename p = filename q))\<rparr>"

definition colliding_state :: "path list state" where
  "colliding_state = sample_state\<lparr>fs := [''/home/user/apple.txt'', ''/home/user/banana.txt'']\<rparr>"

definition skip_all_env :: "(path list, string) env" where
  "skip_all_env = sample_env\<lparr>userDecision := (\<lambda>_ _. SkipAll)\<rparr>"

section \<open>Properties\<close>

subsection \<open>What the building blocks leave alone\<close>

lemmas prim_defs = returns_def seq_def record_call_def query_def mutate_def is_directory_def
  is_regular_file_def exists_def equivalent_def absolute_def current_path_def
  directory_iterator_def create_directories_def copy_call_def remove_all_def
  write_to_file_def record_failure_def incrementSuccessesForItem_def

lemmas sample_defs = sample_env_def sample_state_def colliding_state_def

lemmas run_defs = paste_def paste_entry_def paste_attempt_def paste_try_def pasteItem_def
  askUser_def prim_defs filename_def separator_def path_append_def Let_def

lemma actuallyCopyItem_frame:
  "actuallyCopyItem env f b s = (r, s') \<Longrightarrow>
     failedItems s' = failedItems s \<and> use_safe_copy s' = use_safe_copy s \<and> policy s' = policy s
     \<and> prompts s' = prompts s \<and> prefix (calls s) (calls s')"
  unfolding actuallyCopyItem_def prim_defs Let_def
  by (auto split: sum.splits prod.splits option.splits if_splits)

lemma pasteItem_frame:
  "pasteItem env entry target b s = (r, s') \<Longrightarrow>
     failedItems s' = failedItems s \<and> use_safe_copy s' = use_safe_copy s \<and> policy s' = policy s
     \<and> prompts s' = prompts s \<and> prefix (calls s) (calls s')"
  unfolding pasteItem_def prim_defs Let_def
  by (auto split: sum.splits prod.splits option.splits if_splits)

lemma paste_try_frame:
  "paste_try env entry target s = (r, s') \<Longrightarrow>
     failedItems s' = failedItems s \<and> use_safe_copy s' = use_safe_copy s
     \<and> prefix (calls s @ [Exists target]) (calls s')"
  unfolding paste_try_def exists_def query_def seq_def record_call_def returns_def askUser_def Let_def
  by (auto split: sum.splits prod.splits option.splits if_splits CopyPolicy.splits dest!: pasteItem_frame)

lemma paste_try_sticky:
  "paste_try env entry target s = (r, s') \<Longrightarrow> policy s = SkipAll \<or> policy s = ReplaceAll \<Longrightarrow>
     policy s' = policy s \<and> prompts s' = prompts s"
  unfolding paste_try_def exists_def query_def seq_def record_call_def returns_def askUser_def Let_def
  by (auto split: sum.splits prod.splits option.splits if_splits CopyPolicy.splits dest!: pasteItem_frame)

lemma paste_attempt_sticky:
  "policy s = SkipAll \<or> policy s = ReplaceAll \<Longrightarrow>
     policy (paste_attempt env entry target s) = policy s
     \<and> prompts (paste_attempt env entry target s) = prompts s"
  unfolding paste_attempt_def record_failure_def
  by (auto split: sum.splits prod.splits dest!: pasteItem_frame paste_try_sticky)

lemma paste_entry_sticky:
  "policy s = SkipAll \<or> policy s = ReplaceAll \<Longrightarrow>
     policy (snd (paste_entry env rs e s)) = policy s
     \<and> prompts (snd (paste_entry env rs e s)) = prompts s"
  unfolding paste_entry_def current_path_def query_def record_call_def Let_def
  by (auto split: sum.splits prod.splits simp: paste_attempt_sticky)

lemma paste_loop_sticky:
  "policy s = SkipAll \<or> policy s = ReplaceAll \<Longrightarrow>
     policy (snd (paste_loop env rs es s)) = policy s
     \<and> prompts (snd (paste_loop env rs es s)) = prompts s"
proof (induction es arbitrary: s)
  case Nil
  then show ?case by simp
next
  case (Cons e es)
  obtain a s1 where step: "paste_entry env rs e s = (a, s1)"
    by (cases "paste_entry env rs e s")
  have keep: "policy s1 = policy s \<and> prompts s1 = prompts s"
    using paste_entry_sticky [OF Cons.prems, of env rs e] step by simp
  show ?case
  proof (cases a)
    case None
    then show ?thesis
      using step keep Cons.IH [of s1] Cons.prems by auto
  next
    case (Some x)
    then show ?thesis
      using step keep by simp
  qed
qed

lemma compile_all_None:
  "compile_all c ps = None \<longleftrightarrow> list_ex (\<lambda>p. c p = None) ps"
  by (induction ps) (auto split: option.splits)

lemma actuallyCopyItem_copies:
  "actuallyCopyItem env f b s = (r, s') \<Longrightarrow>
     length (copy_calls (calls s')) \<le> length (copy_calls (calls s)) + 1"
  unfolding actuallyCopyItem_def prim_defs Let_def
  by (auto simp: copy_calls_def split: sum.splits prod.splits option.splits if_splits)

lemma copyItem_other_error:
  assumes "fst (actuallyCopyItem env f (use_safe_copy s) s) = Inl e"
    and "use_safe_copy s \<or> e \<noteq> cross_device_link"
  shows "copyItem env f s = record_failure f e (snd (actuallyCopyItem env f (use_safe_copy s) s))"
proof -
  obtain s1 where first: "actuallyCopyItem env f (use_safe_copy s) s = (Inl e, s1)"
    using assms(1) by (cases "actuallyCopyItem env f (use_safe_copy s) s") auto
  have "use_safe_copy s1 = use_safe_copy s"
    using actuallyCopyItem_frame [OF first] by simp
  then show ?thesis
    using assms(2) first by (auto simp: copyItem_def)
qed

lemma copyItem_calls_prefix:
  "prefix (calls (snd (actuallyCopyItem env f (use_safe_copy s) s))) (calls (copyItem env f s))"
  unfolding copyItem_def record_failure_def
  by (auto split: sum.splits prod.splits dest!: actuallyCopyItem_frame)

lemma actuallyCopyItem_directory:
  assumes "fs_is_directory env (fs s) f = Inr True"
  shows "prefix (calls s @ [Is_directory f,
             Create_directories (path_append (path_data s) (directory_target f))])
           (calls (snd (actuallyCopyItem env f b s)))
         \<and> (snd (fs_create_directories env (fs s) (path_append (path_data s) (directory_target f))) = None \<longrightarrow>
             prefix (calls s @ [Is_directory f,
                 Create_directories (path_append (path_data s) (directory_target f)),
                 Copy_call f (path_append (path_data s) (directory_target f)) (opts s)])
               (calls (snd (actuallyCopyItem env f b s))))"
  using assms
  unfolding actuallyCopyItem_def prim_defs Let_def
  by (auto split: sum.splits prod.splits option.splits if_splits)

lemma paste_entry_selected:
  assumes "fs_current_path env (fs s) = Inr cwd"
    and "rs = [] \<or> list_ex (regex_match env (filename e)) rs"
  shows "paste_entry env rs e s =
           (None, paste_attempt env e (path_append cwd (filename e)) (record_call Current_path s))"
  using assms by (auto simp: paste_entry_def current_path_def query_def Let_def)

lemma paste_entry_filtered:
  assumes "fs_current_path env (fs s) = Inr cwd"
    and "rs \<noteq> []" and "\<not> list_ex (regex_match env (filename e)) rs"
  shows "paste_entry env rs e s = (None, record_call Current_path s)"
  using assms by (auto simp: paste_entry_def current_path_def query_def Let_def)

lemma paste_try_skip_all:
  assumes "fs_exists env (fs s) target = Inr True" and "policy s = SkipAll"
  shows "paste_try env e target s = (Inr (), record_call (Exists target) s)"
  using assms by (simp add: paste_try_def seq_def exists_def query_def returns_def record_call_def)

lemma pasteItem_equivalent:
  assumes "fs_exists env (fs s) target = Inr True"
    and "fs_equivalent env (fs s) e target = Inr True"
  shows "pasteItem env e target b s =
           (Inr (), incrementSuccessesForItem env e
                      (record_call (Equivalent e target) (record_call (Exists target) s)))"
  using assms by (simp add: pasteItem_def seq_def exists_def equivalent_def query_def returns_def record_call_def)

lemma paste_try_asks:
  assumes "fs_exists env (fs s) target = Inr True"
    and "policy s \<noteq> SkipAll" and "policy s \<noteq> ReplaceAll"
  shows "prompts (snd (paste_try env e target s)) = prompts s @ [filename e]
         \<and> policy (snd (paste_try env e target s)) = userDecision env (prompts s) (filename e)"
proof -
  let ?s0 = "record_call (Exists target) s"
  let ?s1 = "askUser env (filename e) ?s0"
  have shape: "paste_try env e target s =
      (if policy ?s1 = ReplaceOnce \<or> policy ?s1 = ReplaceAll
       then pasteItem env e target (use_safe_copy ?s1) ?s1 else returns () ?s1)"
    using assms
    by (cases "policy s") (simp_all add: paste_try_def seq_def exists_def query_def Let_def record_call_def)
  have asked: "prompts ?s1 = prompts s @ [filename e]"
      "policy ?s1 = userDecision env (prompts s) (filename e)"
    by (simp_all add: askUser_def record_call_def)
  show ?thesis
  proof (cases "policy ?s1 = ReplaceOnce \<or> policy ?s1 = ReplaceAll")
    case True
    obtain r s2 where run: "pasteItem env e target (use_safe_copy ?s1) ?s1 = (r, s2)"
      by (cases "pasteItem env e target (use_safe_copy ?s1) ?s1")
    from pasteItem_frame [OF run] shape True run asked show ?thesis
      by simp
  next
    case False
    with shape asked show ?thesis
      by (simp add: returns_def)
  qed
qed

lemma paste_attempt_after_try:
  "prompts (paste_attempt env e target s) = prompts (snd (paste_try env e target s))
   \<and> policy (paste_attempt env e target s) = policy (snd (paste_try env e target s))"
  unfolding paste_attempt_def record_failure_def
  by (auto split: sum.splits prod.splits dest!: pasteItem_frame)

lemma pasteItem_keeps:
  "prompts (snd (pasteItem env e target b s)) = prompts s"
  "policy (snd (pasteItem env e target b s)) = policy s"
  "failedItems (snd (pasteItem env e target b s)) = failedItems s"
  "use_safe_copy (snd (pasteItem env e target b s)) = use_safe_copy s"
  using pasteItem_frame [of env e target b s "fst (pasteItem env e target b s)"
      "snd (pasteItem env e target b s)"]
  by simp_all

lemma paste_try_quiet:
  "prompts (snd (paste_try env e target s)) = prompts s \<Longrightarrow>
   policy (snd (paste_try env e target s)) = policy s"
  unfolding paste_try_def exists_def query_def seq_def record_call_def returns_def askUser_def Let_def
  by (auto simp: pasteItem_keeps split: sum.splits prod.splits if_splits CopyPolicy.splits)

lemma paste_entry_quiet:
  "prompts (snd (paste_entry env rs e s)) = prompts s \<Longrightarrow>
   policy (snd (paste_entry env rs e s)) = policy s"
  unfolding paste_entry_def current_path_def query_def Let_def
  using paste_try_quiet [of env e _ "record_call Current_path s"]
      paste_attempt_after_try [of env e _ "record_call Current_path s"]
  by (auto simp: record_call_def split: sum.splits prod.splits if_splits)


lemma paste_attempt_equivalent:
  assumes "fs_exists env (fs s) target = Inr True"
    and "fs_equivalent env (fs s) entry target = Inr True"
    and pol: "policy s = ReplaceAll
             \<or> policy s \<noteq> SkipAll
               \<and> (userDecision env (prompts s) (filename entry) = ReplaceOnce
                  \<or> userDecision env (prompts s) (filename entry) = ReplaceAll)"
  shows "fs (paste_attempt env entry target s) = fs s
         \<and> calls (paste_attempt env entry target s)
             = calls s @ [Exists target, Exists target, Equivalent entry target, Is_directory entry]
         \<and> failedItems (paste_attempt env entry target s) = failedItems s
         \<and> successes (paste_attempt env entry target s)
             = (if fs_is_directory env (fs s) entry = Inr True
                then (successes s)\<lparr>directories := directories (successes s) + 1\<rparr>
                else (successes s)\<lparr>files := files (successes s) + 1\<rparr>)"
proof -
  have item: "\<And>b s'. fs s' = fs s \<Longrightarrow> pasteItem env entry target b s' =
      (Inr (), incrementSuccessesForItem env entry
                 (record_call (Equivalent entry target) (record_call (Exists target) s')))"
    using assms(1,2) by (intro pasteItem_equivalent) simp_all
  show ?thesis
  proof (cases "policy s = ReplaceAll")
    case True
    then show ?thesis
      using assms(1)
      by (simp add: paste_attempt_def paste_try_def seq_def exists_def query_def item
          incrementSuccessesForItem_def record_call_def Let_def)
  next
    case False
    with pol have ask: "policy s \<noteq> SkipAll" "policy s \<noteq> ReplaceAll"
        "userDecision env (prompts s) (filename entry) = ReplaceOnce
         \<or> userDecision env (prompts s) (filename entry) = ReplaceAll"
      by auto
    then show ?thesis
      using assms(1)
      by (cases "policy s")
        (auto simp: paste_attempt_def paste_try_def seq_def exists_def query_def item askUser_def
          incrementSuccessesForItem_def record_call_def Let_def)
  qed
qed

lemma paste_attempt_skipped:
  assumes "fs_exists env (fs s) target = Inr True"
    and "policy s = SkipAll
         \<or> policy s \<noteq> ReplaceAll
           \<and> userDecision env (prompts s) (filename entry) \<noteq> ReplaceOnce
           \<and> userDecision env (prompts s) (filename entry) \<noteq> ReplaceAll"
  shows "paste_attempt env entry target s =
           (if policy s = SkipAll then record_call (Exists target) s
            else askUser env (filename entry) (record_call (Exists target) s))"
  using assms
  by (cases "policy s")
    (auto simp: paste_attempt_def paste_try_def seq_def exists_def query_def returns_def
      askUser_def record_call_def Let_def)

lemma pasteItem_present_calls:
  assumes "fs_exists env (fs s) target = Inr True"
  shows "prefix (calls s @ [Exists target, Equivalent e target])
           (calls (snd (pasteItem env e target b s)))"
  using assms
  unfolding pasteItem_def prim_defs Let_def
  by (auto split: sum.splits prod.splits option.splits if_splits)

lemma paste_attempt_extends_try:
  "prefix (calls (snd (paste_try env e target s))) (calls (paste_attempt env e target s))"
proof -
  obtain r s1 where t: "paste_try env e target s = (r, s1)"
    by (cases "paste_try env e target s")
  obtain r2 s2 where h: "pasteItem env e target True s1 = (r2, s2)"
    by (cases "pasteItem env e target True s1")
  have "prefix (calls s1) (calls s2)"
    using pasteItem_frame [OF h] by simp
  then show ?thesis
    using t h by (auto simp: paste_attempt_def record_failure_def split: sum.splits)
qed

lemma paste_try_attempted:
  assumes "fs_exists env (fs s) target = Inr True"
    and "policy s = ReplaceAll
         \<or> policy s \<noteq> SkipAll
           \<and> (userDecision env (prompts s) (filename e) = ReplaceOnce
              \<or> userDecision env (prompts s) (filename e) = ReplaceAll)"
  shows "paste_try env e target s =
           pasteItem env e target (use_safe_copy s)
             (if policy s = ReplaceAll then record_call (Exists target) s
              else askUser env (filename e) (record_call (Exists target) s))"
  using assms
  by (cases "policy s")
    (auto simp: paste_try_def seq_def exists_def query_def returns_def
      askUser_def record_call_def Let_def)

lemma paste_attempt_attempted_calls:
  assumes "fs_exists env (fs s) target = Inr True"
    and "policy s = ReplaceAll
         \<or> policy s \<noteq> SkipAll
           \<and> (userDecision env (prompts s) (filename e) = ReplaceOnce
              \<or> userDecision env (prompts s) (filename e) = ReplaceAll)"
  shows "prefix (calls s @ [Exists target, Exists target, Equivalent e target])
           (calls (paste_attempt env e target s))"
proof -
  let ?s1 = "if policy s = ReplaceAll then record_call (Exists target) s
              else askUser env (filename e) (record_call (Exists target) s)"
  have s1: "fs ?s1 = fs s" "calls ?s1 = calls s @ [Exists target]"
    by (simp_all add: askUser_def record_call_def)
  have "prefix (calls ?s1 @ [Exists target, Equivalent e target])
      (calls (snd (pasteItem env e target (use_safe_copy s) ?s1)))"
    using assms(1) s1(1) by (intro pasteItem_present_calls) simp
  then have "prefix (calls s @ [Exists target, Exists target, Equivalent e target])
      (calls (snd (paste_try env e target s)))"
    unfolding paste_try_attempted [OF assms] s1(2) by simp
  then show ?thesis
    using paste_attempt_extends_try [of env e target s] by (rule prefix_order.trans)
qed

lemma pasteItem_different:
  assumes "fs_exists env (fs s) target = Inr True"
    and "fs_equivalent env (fs s) e target = Inr False"
  shows "(\<not> b \<and> (\<exists>x. pasteItem env e target b s
            = (Inl x, s\<lparr>calls := calls s @ [Exists target, Equivalent e target, Is_directory e]\<rparr>)))
         \<or> copy_calls (drop (length (calls s)) (calls (snd (pasteItem env e target b s)))) \<noteq> []"
proof (cases b)
  case True
  obtain fs' r where c: "fs_copy env (fs s) e target (opts s) = (fs', r)"
    by (cases "fs_copy env (fs s) e target (opts s)")
  show ?thesis
    using assms True c
    by (cases r) (simp_all add: pasteItem_def prim_defs copy_calls_def Let_def)
next
  case False
  show ?thesis
  proof (cases "fs_is_directory env (fs s) e")
    case (Inl x)
    then show ?thesis
      using assms False by (simp add: pasteItem_def prim_defs)
  next
    case (Inr d)
    obtain fs' r where c: "fs_copy env (fs s) e target
        (if d then opts s else insert create_hard_links (opts s)) = (fs', r)"
      by (cases "fs_copy env (fs s) e target (if d then opts s else insert create_hard_links (opts s))")
    show ?thesis
      using assms False Inr c
      by (cases r; cases d) (simp_all add: pasteItem_def prim_defs copy_calls_def Let_def)
  qed
qed

lemma paste_attempt_different_copies:
  assumes ex: "fs_exists env (fs s) target = Inr True"
    and ne: "fs_equivalent env (fs s) e target = Inr False"
    and att: "policy s = ReplaceAll
         \<or> policy s \<noteq> SkipAll
           \<and> (userDecision env (prompts s) (filename e) = ReplaceOnce
              \<or> userDecision env (prompts s) (filename e) = ReplaceAll)"
  shows "copy_calls (drop (length (calls s)) (calls (paste_attempt env e target s))) \<noteq> []"
proof -
  let ?s1 = "if policy s = ReplaceAll then record_call (Exists target) s
              else askUser env (filename e) (record_call (Exists target) s)"
  have s1: "fs ?s1 = fs s" "calls ?s1 = calls s @ [Exists target]"
      "use_safe_copy ?s1 = use_safe_copy s"
    by (simp_all add: askUser_def record_call_def)
  have tried: "paste_try env e target s = pasteItem env e target (use_safe_copy s) ?s1"
    by (rule paste_try_attempted [OF ex att])
  have grow: "copy_calls (drop (length (calls s)) cs) \<noteq> []"
    if "prefix (calls ?s1) cs" "copy_calls (drop (length (calls ?s1)) cs) \<noteq> []" for cs
  proof -
    from that(1) obtain rest where "cs = calls s @ Exists target # rest"
      by (auto simp: prefix_def s1(2))
    with that(2) show ?thesis
      by (simp add: s1(2) copy_calls_def)
  qed
  have later: "copy_calls (drop (length (calls s)) cs') \<noteq> []"
    if "prefix cs cs'" "prefix (calls s) cs" "copy_calls (drop (length (calls s)) cs) \<noteq> []" for cs cs'
  proof -
    from that(1,2) obtain a b where "cs = calls s @ a" "cs' = (calls s @ a) @ b"
      by (auto simp: prefix_def)
    with that(3) show ?thesis
      by (simp add: copy_calls_def)
  qed
  from pasteItem_different [of env ?s1 target e "use_safe_copy s"] ex ne s1
  consider (threw) x where "\<not> use_safe_copy s"
      "pasteItem env e target (use_safe_copy s) ?s1
         = (Inl x, ?s1\<lparr>calls := calls ?s1 @ [Exists target, Equivalent e target, Is_directory e]\<rparr>)"
    | (copied) "copy_calls (drop (length (calls ?s1))
        (calls (snd (pasteItem env e target (use_safe_copy s) ?s1)))) \<noteq> []"
    by auto
  then show ?thesis
  proof cases
    case copied
    have p: "prefix (calls ?s1) (calls (snd (paste_try env e target s)))"
      using pasteItem_frame [of env e target "use_safe_copy s" ?s1
          "fst (pasteItem env e target (use_safe_copy s) ?s1)"
          "snd (pasteItem env e target (use_safe_copy s) ?s1)"]
      by (simp add: tried)
    have "copy_calls (drop (length (calls s)) (calls (snd (paste_try env e target s)))) \<noteq> []"
      using grow [OF p] copied by (simp add: tried)
    moreover have "prefix (calls s) (calls (snd (paste_try env e target s)))"
      using p by (auto simp: s1(2) prefix_def)
    ultimately show ?thesis
      using later [OF paste_attempt_extends_try [of env e target s]] by blast
  next
    case threw
    let ?s2 = "?s1\<lparr>calls := calls ?s1 @ [Exists target, Equivalent e target, Is_directory e]\<rparr>"
    have s2: "fs ?s2 = fs s" "use_safe_copy ?s2 = use_safe_copy s"
        "calls ?s2 = calls s @ [Exists target, Exists target, Equivalent e target, Is_directory e]"
      by (simp_all add: askUser_def record_call_def)
    have att2: "paste_attempt env e target s =
        (case pasteItem env e target True ?s2 of
           (Inr u, s3) \<Rightarrow> s3 | (Inl e2, s3) \<Rightarrow> record_failure (filename e) e2 s3)"
      using threw s2(2) by (simp add: paste_attempt_def tried)
    have "copy_calls (drop (length (calls ?s2)) (calls (snd (pasteItem env e target True ?s2)))) \<noteq> []"
      using pasteItem_different [of env ?s2 target e True] ex ne s2(1) by simp
    moreover have "calls (paste_attempt env e target s) = calls (snd (pasteItem env e target True ?s2))"
      unfolding att2 by (simp add: record_failure_def split: prod.splits sum.splits)
    moreover have "prefix (calls ?s2) (calls (snd (pasteItem env e target True ?s2)))"
      using pasteItem_frame [of env e target True ?s2 "fst (pasteItem env e target True ?s2)"
          "snd (pasteItem env e target True ?s2)"] by simp
    ultimately show ?thesis
      unfolding s2(3) by (auto simp: prefix_def copy_calls_def)
  qed
qed

lemma paste_attempt_prompts:
  assumes "fs_exists env (fs s) target = Inr True"
  shows "prompts (paste_attempt env e target s) =
           (if policy s \<noteq> SkipAll \<and> policy s \<noteq> ReplaceAll
            then prompts s @ [filename e] else prompts s)"
proof (cases "policy s = SkipAll \<or> policy s = ReplaceAll")
  case True
  then show ?thesis
    using paste_attempt_sticky [OF True, of env e target] by auto
next
  case False
  then have "policy s \<noteq> SkipAll" "policy s \<noteq> ReplaceAll"
    by auto
  from paste_try_asks [OF assms this, of e] paste_attempt_after_try [of env e target s] False
  show ?thesis
    by simp
qed

lemma remove_if_match_no_match:
  "\<not> regex_match env (filename entry) r \<Longrightarrow> remove_if_match env entry r s = s"
  by (simp add: remove_if_match_def)

lemma fold_remove_if_match_no_match:
  "\<not> list_ex (regex_match env (filename entry)) rs \<Longrightarrow> fold (remove_if_match env entry) rs s = s"
  by (induction rs arbitrary: s) (simp_all add: remove_if_match_no_match)

lemma remove_entries_no_match:
  "\<not> list_ex (\<lambda>entry. list_ex (regex_match env (filename entry)) rs) entries \<Longrightarrow>
   remove_entries env rs entries s = s"
  unfolding remove_entries_def
  by (induction entries arbitrary: s) (simp_all add: fold_remove_if_match_no_match)

subsection \<open>The decomposition of paths\<close>

lemma filename_append:
  assumes "separator \<notin> set n"
  shows "filename (d @ separator # n) = n"
proof -
  have "takeWhile (\<lambda>c. c \<noteq> separator) (rev n) = rev n"
    using assms by (auto simp: takeWhile_eq_all_conv)
  then show ?thesis
    by (simp add: filename_def takeWhile_tail del: takeWhile_eq_all_conv)
qed

lemma filename_trailing_separator: "filename (p @ [separator]) = []"
  by (simp add: filename_def)

lemma parent_path_trailing_separator:
  assumes "p \<noteq> []" "last p \<noteq> separator"
  shows "parent_path (p @ [separator]) = p"
proof -
  have "\<not> (\<forall>c \<in> set p. c = separator)"
    using assms by (meson last_in_set)
  moreover have "dropWhile (\<lambda>c. c = separator) (rev p) = rev p"
    using assms by (cases p rule: rev_cases) auto
  ultimately show ?thesis
    using assms by (auto simp: parent_path_def Let_def list_all_iff)
qed

lemma directory_target_trailing_separator:
  assumes "separator \<notin> set n" "n \<noteq> []"
  shows "directory_target (d @ separator # n @ [separator]) = n"
proof -
  have last: "last (d @ separator # n) \<noteq> separator"
    using assms by (metis last_appendR last_in_set last_ConsR list.distinct(1))
  have "filename ((d @ separator # n) @ [separator]) = []"
    by (rule filename_trailing_separator)
  moreover have "parent_path ((d @ separator # n) @ [separator]) = d @ separator # n"
    using last by (intro parent_path_trailing_separator) simp_all
  ultimately show ?thesis
    using assms by (simp add: directory_target_def filename_append)
qed

subsection \<open>The retry of paste\<close>

text \<open>
  C1. The claim: a failed fast copy is retried with the safe strategy only when the error
  code is the cross-device one, in \<open>copyItem\<close> and in \<open>paste\<close> alike. \<open>copyItem\<close>
  tests the code (line 41, lemma \<open>copyItem_other_error\<close>). The handler of \<open>paste\<close>
  tests \<open>copying.use_safe_copy\<close> only (line 108): when the \<open>try\<close> block throws with
  any code \<open>e\<close> while safe copy is off, \<open>pasteItem(true)\<close> runs, and if it returns, the
  entry has been pasted and no failure is recorded for it.
\<close>

theorem paste_retries_after_any_error:
  assumes "\<not> use_safe_copy s"
    and "fst (paste_try env entry target s) = Inl e"
    and "fst (pasteItem env entry target True (snd (paste_try env entry target s))) = Inr ()"
  shows "paste_attempt env entry target s
           = snd (pasteItem env entry target True (snd (paste_try env entry target s)))
         \<and> failedItems (paste_attempt env entry target s) = failedItems s"
proof -
  obtain s1 where t: "paste_try env entry target s = (Inl e, s1)"
    using assms(2) by (cases "paste_try env entry target s") auto
  obtain s2 where h: "pasteItem env entry target True s1 = (Inr (), s2)"
    using assms(3) t by (cases "pasteItem env entry target True s1") auto
  have k1: "use_safe_copy s1 = use_safe_copy s" "failedItems s1 = failedItems s"
    using paste_try_frame [OF t] by simp_all
  have k2: "failedItems s2 = failedItems s1"
    using pasteItem_frame [OF h] by simp
  show ?thesis
    using assms(1) t h k1 k2 by (simp add: paste_attempt_def)
qed

text \<open>
  The failing input: hard links are refused with \<open>permission_denied\<close>. \<open>paste\<close> copies
  the entry a second time, without hard links, counts one file and records no failure;
  \<open>copyItem\<close>, on the same error, records the failure at once.
\<close>

theorem paste_retries_after_any_error_witness:
  "\<not> use_safe_copy sample_state
   \<and> fst (paste_try denying_env ''/clip/data/apple.txt'' ''/home/user/apple.txt'' sample_state)
       = Inl permission_denied
   \<and> fst (pasteItem denying_env ''/clip/data/apple.txt'' ''/home/user/apple.txt'' True
           (snd (paste_try denying_env ''/clip/data/apple.txt'' ''/home/user/apple.txt'' sample_state)))
       = Inr ()
   \<and> failedItems (paste_attempt denying_env ''/clip/data/apple.txt'' ''/home/user/apple.txt'' sample_state) = []
   \<and> files (successes (paste_attempt denying_env ''/clip/data/apple.txt'' ''/home/user/apple.txt'' sample_state)) = 1
   \<and> copy_calls (calls (paste_attempt denying_env ''/clip/data/apple.txt'' ''/home/user/apple.txt'' sample_state))
       = [Copy_call ''/clip/data/apple.txt'' ''/home/user/apple.txt''
            {create_hard_links, overwrite_existing, recursive, copy_symlinks},
          Copy_call ''/clip/data/apple.txt'' ''/home/user/apple.txt''
            {overwrite_existing, recursive, copy_symlinks}]
   \<and> failedItems (copyItem denying_env ''/home/user/a.txt'' sample_state)
       = [(''/home/user/a.txt'', permission_denied)]
   \<and> failedItems (snd (paste denying_env sample_state)) = []
   \<and> successes (snd (paste denying_env sample_state)) = \<lparr>files = 2, directories = 0, bytes = 0\<rparr>"
proof -
  have h1: "\<not> use_safe_copy sample_state"
    by (simp add: sample_state_def)
  have h2: "fst (paste_try denying_env ''/clip/data/apple.txt'' ''/home/user/apple.txt'' sample_state)
       = Inl permission_denied"
    by (simp add: run_defs copy_calls_def sample_defs denying_env_def)
  have h3: "fst (pasteItem denying_env ''/clip/data/apple.txt'' ''/home/user/apple.txt'' True
           (snd (paste_try denying_env ''/clip/data/apple.txt'' ''/home/user/apple.txt'' sample_state)))
       = Inr ()"
    by (simp add: run_defs copy_calls_def sample_defs denying_env_def)
  have f0: "failedItems sample_state = []"
    by (simp add: sample_state_def)
  have "failedItems (paste_attempt denying_env ''/clip/data/apple.txt'' ''/home/user/apple.txt'' sample_state)
      = failedItems sample_state"
    using paste_retries_after_any_error [OF h1 h2 h3] by blast
  then have c1: "failedItems (paste_attempt denying_env ''/clip/data/apple.txt'' ''/home/user/apple.txt''
      sample_state) = []"
    by (simp add: f0)
  have c2: "files (successes (paste_attempt denying_env ''/clip/data/apple.txt'' ''/home/user/apple.txt'' sample_state)) = 1"
    by (simp add: run_defs copy_calls_def sample_defs denying_env_def)
  have c3: "copy_calls (calls (paste_attempt denying_env ''/clip/data/apple.txt'' ''/home/user/apple.txt'' sample_state))
       = [Copy_call ''/clip/data/apple.txt'' ''/home/user/apple.txt''
            {create_hard_links, overwrite_existing, recursive, copy_symlinks},
          Copy_call ''/clip/data/apple.txt'' ''/home/user/apple.txt''
            {overwrite_existing, recursive, copy_symlinks}]"
    by (simp add: run_defs copy_calls_def sample_defs denying_env_def)
  have c4: "failedItems (copyItem denying_env ''/home/user/a.txt'' sample_state)
       = [(''/home/user/a.txt'', permission_denied)]"
    by (simp add: copyItem_def actuallyCopyItem_def run_defs copy_calls_def sample_defs denying_env_def)
  have c5: "failedItems (snd (paste denying_env sample_state)) = []"
      "successes (snd (paste denying_env sample_state)) = \<lparr>files = 2, directories = 0, bytes = 0\<rparr>"
    by (simp_all add: run_defs sample_defs denying_env_def)
  show ?thesis
    using h1 h2 h3 c1 c2 c3 c4 c5 by blast
qed

subsection \<open>The conflict policy is sticky\<close>

text \<open>
  C2. Once the policy is \<open>SkipAll\<close> or \<open>ReplaceAll\<close>, the rest of the loop never calls
  \<open>userDecision\<close> and never changes the policy. In any other state (none stored yet, or
  the skip-once or replace-once answer of an earlier prompt) an entry that passes the
  filter and whose destination exists is shown to the user, and the answer becomes the
  policy. A round that does not prompt leaves the policy as it is, so a once-answer is
  still in place at the next collision.
\<close>

theorem paste_policy_sticky:
  "(policy s = SkipAll \<or> policy s = ReplaceAll \<longrightarrow>
      prompts (snd (paste_loop env rs es s)) = prompts s
      \<and> policy (snd (paste_loop env rs es s)) = policy s)
   \<and> (policy s \<noteq> SkipAll \<and> policy s \<noteq> ReplaceAll
      \<and> fs_current_path env (fs s) = Inr cwd
      \<and> (rs = [] \<or> list_ex (regex_match env (filename e)) rs)
      \<and> fs_exists env (fs s) (path_append cwd (filename e)) = Inr True \<longrightarrow>
      prompts (snd (paste_entry env rs e s)) = prompts s @ [filename e]
      \<and> policy (snd (paste_entry env rs e s)) = userDecision env (prompts s) (filename e))
   \<and> (prompts (snd (paste_entry env rs e s)) = prompts s \<longrightarrow>
      policy (snd (paste_entry env rs e s)) = policy s)"
proof (intro conjI impI)
  assume "policy s = SkipAll \<or> policy s = ReplaceAll"
  then show "prompts (snd (paste_loop env rs es s)) = prompts s"
      and "policy (snd (paste_loop env rs es s)) = policy s"
    using paste_loop_sticky [of s env rs es] by simp_all
next
  assume h: "policy s \<noteq> SkipAll \<and> policy s \<noteq> ReplaceAll
      \<and> fs_current_path env (fs s) = Inr cwd
      \<and> (rs = [] \<or> list_ex (regex_match env (filename e)) rs)
      \<and> fs_exists env (fs s) (path_append cwd (filename e)) = Inr True"
  let ?s0 = "record_call Current_path s"
  have step: "paste_entry env rs e s = (None, paste_attempt env e (path_append cwd (filename e)) ?s0)"
    using h paste_entry_selected by blast
  have "fs_exists env (fs ?s0) (path_append cwd (filename e)) = Inr True"
      "policy ?s0 \<noteq> SkipAll" "policy ?s0 \<noteq> ReplaceAll"
    using h by (simp_all add: record_call_def)
  from paste_try_asks [OF this, of e] paste_attempt_after_try [of env e "path_append cwd (filename e)" ?s0]
  show "prompts (snd (paste_entry env rs e s)) = prompts s @ [filename e]"
      and "policy (snd (paste_entry env rs e s)) = userDecision env (prompts s) (filename e)"
    by (simp_all add: step record_call_def)
next
  assume "prompts (snd (paste_entry env rs e s)) = prompts s"
  then show "policy (snd (paste_entry env rs e s)) = policy s"
    by (rule paste_entry_quiet)
qed

text \<open>
  Both staged names exist in the working directory. Under \<open>SkipAll\<close> nobody is asked; a
  user who answers skip is asked for each of the two; a user who answers skip-all is
  asked once.
\<close>

theorem paste_policy_sticky_witness:
  "policy (colliding_state\<lparr>policy := SkipAll\<rparr>) = SkipAll
   \<and> prompts (snd (paste_loop sample_env [] [''/clip/data/apple.txt'', ''/clip/data/banana.txt''] (colliding_state\<lparr>policy := SkipAll\<rparr>))) = []
   \<and> policy (snd (paste_loop sample_env [] [''/clip/data/apple.txt'', ''/clip/data/banana.txt''] (colliding_state\<lparr>policy := SkipAll\<rparr>))) = SkipAll
   \<and> policy colliding_state = Unknown
   \<and> fs_exists sample_env (fs colliding_state) (path_append ''/home/user'' (filename ''/clip/data/apple.txt'')) = Inr True
   \<and> prompts (snd (paste_entry sample_env [] ''/clip/data/apple.txt'' colliding_state)) = [''apple.txt'']
   \<and> policy (snd (paste_entry sample_env [] ''/clip/data/apple.txt'' colliding_state)) = SkipOnce
   \<and> prompts (snd (paste_loop sample_env [] [''/clip/data/apple.txt'', ''/clip/data/banana.txt''] colliding_state)) = [''apple.txt'', ''banana.txt'']
   \<and> prompts (snd (paste_loop skip_all_env [] [''/clip/data/apple.txt'', ''/clip/data/banana.txt''] colliding_state)) = [''apple.txt'']"
proof -
  have p: "policy (colliding_state\<lparr>policy := SkipAll\<rparr>) = SkipAll"
    by simp
  have q: "prompts (colliding_state\<lparr>policy := SkipAll\<rparr>) = []" "prompts colliding_state = []"
      "policy colliding_state = Unknown"
    by (simp_all add: sample_defs skip_all_env_def)
  have all: "prompts (snd (paste_loop sample_env [] [''/clip/data/apple.txt'', ''/clip/data/banana.txt''] (colliding_state\<lparr>policy := SkipAll\<rparr>))) = []
      \<and> policy (snd (paste_loop sample_env [] [''/clip/data/apple.txt'', ''/clip/data/banana.txt''] (colliding_state\<lparr>policy := SkipAll\<rparr>))) = SkipAll"
    using paste_policy_sticky [where s = "colliding_state\<lparr>policy := SkipAll\<rparr>" and env = sample_env
        and rs = "[]" and es = "[''/clip/data/apple.txt'', ''/clip/data/banana.txt'']"] p q
    by simp
  have c: "fs_current_path sample_env (fs colliding_state) = Inr ''/home/user''"
    by (simp add: sample_defs skip_all_env_def)
  have x: "fs_exists sample_env (fs colliding_state) (path_append ''/home/user'' (filename ''/clip/data/apple.txt'')) = Inr True"
    by (simp add: sample_defs skip_all_env_def filename_def separator_def path_append_def)
  have u: "userDecision sample_env [] (filename ''/clip/data/apple.txt'') = SkipOnce" "filename ''/clip/data/apple.txt'' = ''apple.txt''"
    by (simp_all add: sample_defs skip_all_env_def filename_def separator_def)
  have once: "prompts (snd (paste_entry sample_env [] ''/clip/data/apple.txt'' colliding_state)) = [''apple.txt'']
      \<and> policy (snd (paste_entry sample_env [] ''/clip/data/apple.txt'' colliding_state)) = SkipOnce"
    using paste_policy_sticky [where s = colliding_state and env = sample_env and rs = "[]"
        and cwd = "''/home/user''" and e = "''/clip/data/apple.txt''"] c x q u
    by simp
  have again: "prompts (snd (paste_loop sample_env [] [''/clip/data/apple.txt'', ''/clip/data/banana.txt''] colliding_state))
      = [''apple.txt'', ''banana.txt'']"
    by (simp add: run_defs sample_defs skip_all_env_def)
  have stop: "prompts (snd (paste_loop skip_all_env [] [''/clip/data/apple.txt'', ''/clip/data/banana.txt''] colliding_state)) = [''apple.txt'']"
    by (simp add: run_defs sample_defs skip_all_env_def)
  show ?thesis
    using p all q(3) x once again stop by blast
qed

subsection \<open>A destination that is the source itself\<close>

text \<open>
  C3, as amended. For an entry whose destination exists and is equivalent to it, a run of
  \<open>pasteItem\<close> returns without throwing, calls no \<open>fs::copy\<close> (the log grows by the
  existence test, the equivalence test and the kind test of the counter), leaves the
  filesystem as it was and adds one to the matching counter. In \<open>paste\<close>, the \<open>try\<close>
  statement on such an entry never copies and never records a failure; it counts the entry
  as a success when it pastes it, that is under \<open>ReplaceAll\<close> or after a replace or
  replace-all answer of the user, and counts nothing when it skips it.
\<close>

theorem paste_equivalent_target_counts_success:
  assumes "fs_exists env (fs s) target = Inr True"
    and "fs_equivalent env (fs s) entry target = Inr True"
  shows "fst (pasteItem env entry target b s) = Inr ()
         \<and> fs (snd (pasteItem env entry target b s)) = fs s
         \<and> calls (snd (pasteItem env entry target b s))
             = calls s @ [Exists target, Equivalent entry target, Is_directory entry]
         \<and> successes (snd (pasteItem env entry target b s))
             = (if fs_is_directory env (fs s) entry = Inr True
                then (successes s)\<lparr>directories := directories (successes s) + 1\<rparr>
                else (successes s)\<lparr>files := files (successes s) + 1\<rparr>)
         \<and> fs (paste_attempt env entry target s) = fs s
         \<and> copy_calls (calls (paste_attempt env entry target s)) = copy_calls (calls s)
         \<and> failedItems (paste_attempt env entry target s) = failedItems s
         \<and> successes (paste_attempt env entry target s)
             = (if policy s = ReplaceAll
                   \<or> policy s \<noteq> SkipAll
                     \<and> (userDecision env (prompts s) (filename entry) = ReplaceOnce
                        \<or> userDecision env (prompts s) (filename entry) = ReplaceAll)
                then (if fs_is_directory env (fs s) entry = Inr True
                      then (successes s)\<lparr>directories := directories (successes s) + 1\<rparr>
                      else (successes s)\<lparr>files := files (successes s) + 1\<rparr>)
                else successes s)"
proof -
  have first: "fst (pasteItem env entry target b s) = Inr ()"
      "fs (snd (pasteItem env entry target b s)) = fs s"
      "calls (snd (pasteItem env entry target b s))
             = calls s @ [Exists target, Equivalent entry target, Is_directory entry]"
      "successes (snd (pasteItem env entry target b s))
             = (if fs_is_directory env (fs s) entry = Inr True
                then (successes s)\<lparr>directories := directories (successes s) + 1\<rparr>
                else (successes s)\<lparr>files := files (successes s) + 1\<rparr>)"
    by (simp_all add: pasteItem_equivalent [OF assms] incrementSuccessesForItem_def
        record_call_def Let_def)
  let ?pasted = "policy s = ReplaceAll
                   \<or> policy s \<noteq> SkipAll
                     \<and> (userDecision env (prompts s) (filename entry) = ReplaceOnce
                        \<or> userDecision env (prompts s) (filename entry) = ReplaceAll)"
  have second: "fs (paste_attempt env entry target s) = fs s
         \<and> copy_calls (calls (paste_attempt env entry target s)) = copy_calls (calls s)
         \<and> failedItems (paste_attempt env entry target s) = failedItems s
         \<and> successes (paste_attempt env entry target s)
             = (if ?pasted
                then (if fs_is_directory env (fs s) entry = Inr True
                      then (successes s)\<lparr>directories := directories (successes s) + 1\<rparr>
                      else (successes s)\<lparr>files := files (successes s) + 1\<rparr>)
                else successes s)"
  proof (cases ?pasted)
    case True
    have "copy_calls (calls (paste_attempt env entry target s)) = copy_calls (calls s)"
      using paste_attempt_equivalent [OF assms True] by (simp add: copy_calls_def)
    then show ?thesis
      unfolding if_P [OF True] using paste_attempt_equivalent [OF assms True] by blast
  next
    case False
    then have "policy s = SkipAll
         \<or> policy s \<noteq> ReplaceAll
           \<and> userDecision env (prompts s) (filename entry) \<noteq> ReplaceOnce
           \<and> userDecision env (prompts s) (filename entry) \<noteq> ReplaceAll"
      by auto
    from paste_attempt_skipped [OF assms(1) this]
    have "fs (paste_attempt env entry target s) = fs s"
        "copy_calls (calls (paste_attempt env entry target s)) = copy_calls (calls s)"
        "failedItems (paste_attempt env entry target s) = failedItems s"
        "successes (paste_attempt env entry target s) = successes s"
      by (simp_all add: copy_calls_def askUser_def record_call_def)
    then show ?thesis
      unfolding if_not_P [OF False] by blast
  qed
  show ?thesis
    using first second by blast
qed

text \<open>
  The staged \<open>apple.txt\<close> and the one in the working directory are the same file, the
  policy is \<open>ReplaceAll\<close>: no copy, one file counted, no failure.
\<close>

theorem paste_equivalent_target_counts_success_witness:
  "fs_exists linked_env (fs (colliding_state\<lparr>policy := ReplaceAll\<rparr>)) ''/home/user/apple.txt'' = Inr True
   \<and> fs_equivalent linked_env (fs (colliding_state\<lparr>policy := ReplaceAll\<rparr>))
       ''/clip/data/apple.txt'' ''/home/user/apple.txt'' = Inr True
   \<and> policy (colliding_state\<lparr>policy := ReplaceAll\<rparr>) = ReplaceAll
   \<and> copy_calls (calls (paste_attempt linked_env ''/clip/data/apple.txt'' ''/home/user/apple.txt''
         (colliding_state\<lparr>policy := ReplaceAll\<rparr>))) = []
   \<and> failedItems (paste_attempt linked_env ''/clip/data/apple.txt'' ''/home/user/apple.txt''
         (colliding_state\<lparr>policy := ReplaceAll\<rparr>)) = []
   \<and> successes (paste_attempt linked_env ''/clip/data/apple.txt'' ''/home/user/apple.txt''
         (colliding_state\<lparr>policy := ReplaceAll\<rparr>))
       = \<lparr>files = 1, directories = 0, bytes = 0\<rparr>
   \<and> fs (paste_attempt linked_env ''/clip/data/apple.txt'' ''/home/user/apple.txt''
         (colliding_state\<lparr>policy := ReplaceAll\<rparr>))
       = [''/home/user/apple.txt'', ''/home/user/banana.txt'']"
proof -
  let ?s = "colliding_state\<lparr>policy := ReplaceAll\<rparr>"
  let ?a = "''/clip/data/apple.txt''"
  let ?t = "''/home/user/apple.txt''"
  have h1: "fs_exists linked_env (fs ?s) ?t = Inr True"
    by (simp add: sample_defs linked_env_def)
  have h2: "fs_equivalent linked_env (fs ?s) ?a ?t = Inr True"
    by (simp add: sample_defs linked_env_def filename_def separator_def)
  have h3: "policy ?s = ReplaceAll"
    by simp
  have v: "copy_calls (calls colliding_state) = []" "failedItems ?s = []"
      "fs ?s = [''/home/user/apple.txt'', ''/home/user/banana.txt'']"
      "successes ?s = \<lparr>files = 0, directories = 0, bytes = 0\<rparr>"
      "fs_is_directory linked_env [''/home/user/apple.txt'', ''/home/user/banana.txt''] ?a \<noteq> Inr True"
    by (simp_all add: sample_defs linked_env_def copy_calls_def filename_def separator_def)
  have "fs (paste_attempt linked_env ?a ?t ?s) = fs ?s
      \<and> copy_calls (calls (paste_attempt linked_env ?a ?t ?s)) = copy_calls (calls ?s)
      \<and> failedItems (paste_attempt linked_env ?a ?t ?s) = failedItems ?s
      \<and> successes (paste_attempt linked_env ?a ?t ?s)
          = (if policy ?s = ReplaceAll
                \<or> policy ?s \<noteq> SkipAll
                  \<and> (userDecision linked_env (prompts ?s) (filename ?a) = ReplaceOnce
                     \<or> userDecision linked_env (prompts ?s) (filename ?a) = ReplaceAll)
             then (if fs_is_directory linked_env (fs ?s) ?a = Inr True
                   then (successes ?s)\<lparr>directories := directories (successes ?s) + 1\<rparr>
                   else (successes ?s)\<lparr>files := files (successes ?s) + 1\<rparr>)
             else successes ?s)"
    using paste_equivalent_target_counts_success [OF h1 h2, of True] by blast
  then have "fs (paste_attempt linked_env ?a ?t ?s) = [''/home/user/apple.txt'', ''/home/user/banana.txt'']
      \<and> copy_calls (calls (paste_attempt linked_env ?a ?t ?s)) = []
      \<and> failedItems (paste_attempt linked_env ?a ?t ?s) = []
      \<and> successes (paste_attempt linked_env ?a ?t ?s) = \<lparr>files = 1, directories = 0, bytes = 0\<rparr>"
    by (simp add: v)
  then show ?thesis
    using h1 h2 h3 by blast
qed

text \<open>
  C3 as first stated, that every staged entry whose destination exists and is the same
  file counts as a success, fails: under \<open>SkipAll\<close> the two equivalent entries are
  bypassed and the counters stay at zero.
\<close>

theorem paste_equivalent_target_counts_success_counterexample:
  "fs_directory_iterator linked_env (fs (colliding_state\<lparr>policy := SkipAll\<rparr>)) ''/clip/data''
       = Inr [''/clip/data/apple.txt'', ''/clip/data/banana.txt'']
   \<and> fs_exists linked_env (fs (colliding_state\<lparr>policy := SkipAll\<rparr>)) ''/home/user/apple.txt'' = Inr True
   \<and> fs_equivalent linked_env (fs (colliding_state\<lparr>policy := SkipAll\<rparr>))
       ''/clip/data/apple.txt'' ''/home/user/apple.txt'' = Inr True
   \<and> fst (paste linked_env (colliding_state\<lparr>policy := SkipAll\<rparr>)) = None
   \<and> successes (snd (paste linked_env (colliding_state\<lparr>policy := SkipAll\<rparr>)))
       = \<lparr>files = 0, directories = 0, bytes = 0\<rparr>"
  by (simp add: run_defs sample_defs linked_env_def)

subsection \<open>The policy comes before the equivalence test\<close>

text \<open>
  C4. For every staged entry whose destination exists, in every state of the policy and
  whatever \<open>fs::equivalent\<close> would answer: the user is prompted exactly when the
  entry passes the filter and the policy is neither \<open>SkipAll\<close> nor \<open>ReplaceAll\<close>;
  \<open>fs::equivalent\<close> is called in the round exactly when the paste is attempted, that is
  when the entry passes the filter and the policy is \<open>ReplaceAll\<close> or the answer to the
  prompt is replace or replace-all. When the paste is not attempted the round logs the
  existence test at most, and changes neither the filesystem, nor the counters, nor the
  failures, so that under \<open>SkipAll\<close> an equivalent destination is bypassed entirely. When
  it is attempted, the equivalence test comes after the two existence tests, and its answer
  decides the copy only: an equivalent destination is counted as a success without a copy,
  a different one is copied.
\<close>

theorem paste_policy_before_equivalence:
  assumes "fs_current_path env (fs s) = Inr cwd"
    and "fs_exists env (fs s) (path_append cwd (filename e)) = Inr True"
  shows "prompts (snd (paste_entry env rs e s))
           = (if (rs = [] \<or> list_ex (regex_match env (filename e)) rs)
                 \<and> policy s \<noteq> SkipAll \<and> policy s \<noteq> ReplaceAll
              then prompts s @ [filename e] else prompts s)
         \<and> (Equivalent e (path_append cwd (filename e))
               \<in> set (drop (length (calls s)) (calls (snd (paste_entry env rs e s))))
             \<longleftrightarrow> (rs = [] \<or> list_ex (regex_match env (filename e)) rs)
                 \<and> (policy s = ReplaceAll
                    \<or> policy s \<noteq> SkipAll
                      \<and> (userDecision env (prompts s) (filename e) = ReplaceOnce
                         \<or> userDecision env (prompts s) (filename e) = ReplaceAll)))
         \<and> (\<not> ((rs = [] \<or> list_ex (regex_match env (filename e)) rs)
                 \<and> (policy s = ReplaceAll
                    \<or> policy s \<noteq> SkipAll
                      \<and> (userDecision env (prompts s) (filename e) = ReplaceOnce
                         \<or> userDecision env (prompts s) (filename e) = ReplaceAll))) \<longrightarrow>
             calls (snd (paste_entry env rs e s))
               = calls s @ (if rs = [] \<or> list_ex (regex_match env (filename e)) rs
                            then [Current_path, Exists (path_append cwd (filename e))]
                            else [Current_path])
             \<and> fs (snd (paste_entry env rs e s)) = fs s
             \<and> successes (snd (paste_entry env rs e s)) = successes s
             \<and> failedItems (snd (paste_entry env rs e s)) = failedItems s)
         \<and> ((rs = [] \<or> list_ex (regex_match env (filename e)) rs)
             \<and> (policy s = ReplaceAll
                \<or> policy s \<noteq> SkipAll
                  \<and> (userDecision env (prompts s) (filename e) = ReplaceOnce
                     \<or> userDecision env (prompts s) (filename e) = ReplaceAll)) \<longrightarrow>
             prefix (calls s @ [Current_path, Exists (path_append cwd (filename e)),
                        Exists (path_append cwd (filename e)),
                        Equivalent e (path_append cwd (filename e))])
               (calls (snd (paste_entry env rs e s)))
             \<and> (fs_equivalent env (fs s) e (path_append cwd (filename e)) = Inr True \<longrightarrow>
                 calls (snd (paste_entry env rs e s))
                   = calls s @ [Current_path, Exists (path_append cwd (filename e)),
                       Exists (path_append cwd (filename e)),
                       Equivalent e (path_append cwd (filename e)), Is_directory e]
                 \<and> fs (snd (paste_entry env rs e s)) = fs s
                 \<and> successes (snd (paste_entry env rs e s))
                     = (if fs_is_directory env (fs s) e = Inr True
                        then (successes s)\<lparr>directories := directories (successes s) + 1\<rparr>
                        else (successes s)\<lparr>files := files (successes s) + 1\<rparr>)
                 \<and> failedItems (snd (paste_entry env rs e s)) = failedItems s)
             \<and> (fs_equivalent env (fs s) e (path_append cwd (filename e)) = Inr False \<longrightarrow>
                 copy_calls (drop (length (calls s)) (calls (snd (paste_entry env rs e s)))) \<noteq> []))"
proof -
  let ?t = "path_append cwd (filename e)"
  let ?s0 = "record_call Current_path s"
  let ?sel = "rs = [] \<or> list_ex (regex_match env (filename e)) rs"
  let ?att = "policy s = ReplaceAll
                    \<or> policy s \<noteq> SkipAll
                      \<and> (userDecision env (prompts s) (filename e) = ReplaceOnce
                         \<or> userDecision env (prompts s) (filename e) = ReplaceAll)"
  let ?s' = "snd (paste_entry env rs e s)"
  have s0: "fs ?s0 = fs s" "calls ?s0 = calls s @ [Current_path]" "policy ?s0 = policy s"
      "prompts ?s0 = prompts s" "successes ?s0 = successes s" "failedItems ?s0 = failedItems s"
    by (simp_all add: record_call_def)
  have ex0: "fs_exists env (fs ?s0) ?t = Inr True"
    using assms(2) by (simp add: s0)
  show ?thesis
  proof (cases ?sel)
    case False
    then have "paste_entry env rs e s = (None, ?s0)"
      using paste_entry_filtered [OF assms(1), of rs e] by auto
    then have s': "?s' = ?s0"
      by simp
    show ?thesis
      unfolding s' using False by (simp add: s0)
  next
    case True
    have s': "?s' = paste_attempt env e ?t ?s0"
      using paste_entry_selected [OF assms(1) True] by simp
    have c1: "prompts ?s' = (if policy s \<noteq> SkipAll \<and> policy s \<noteq> ReplaceAll
            then prompts s @ [filename e] else prompts s)"
      unfolding s' using paste_attempt_prompts [OF ex0, of e] by (simp add: s0)
    show ?thesis
    proof (cases ?att)
      case att: True
      then have att0: "policy ?s0 = ReplaceAll
                    \<or> policy ?s0 \<noteq> SkipAll
                      \<and> (userDecision env (prompts ?s0) (filename e) = ReplaceOnce
                         \<or> userDecision env (prompts ?s0) (filename e) = ReplaceAll)"
        by (simp add: s0)
      have pre: "prefix (calls s @ [Current_path, Exists ?t, Exists ?t, Equivalent e ?t]) (calls ?s')"
        unfolding s' using paste_attempt_attempted_calls [OF ex0 att0] by (simp add: s0)
      then obtain rest where rest: "calls ?s' = calls s @ [Current_path, Exists ?t, Exists ?t, Equivalent e ?t] @ rest"
        by (auto simp: prefix_def)
      then have mem: "Equivalent e ?t \<in> set (drop (length (calls s)) (calls ?s'))"
        by simp
      have same: "calls ?s' = calls s @ [Current_path, Exists ?t, Exists ?t, Equivalent e ?t, Is_directory e]
                 \<and> fs ?s' = fs s
                 \<and> successes ?s'
                     = (if fs_is_directory env (fs s) e = Inr True
                        then (successes s)\<lparr>directories := directories (successes s) + 1\<rparr>
                        else (successes s)\<lparr>files := files (successes s) + 1\<rparr>)
                 \<and> failedItems ?s' = failedItems s"
        if eq: "fs_equivalent env (fs s) e ?t = Inr True"
      proof -
        have "fs_equivalent env (fs ?s0) e ?t = Inr True"
          using eq by (simp add: s0)
        from paste_attempt_equivalent [OF ex0 this att0] show ?thesis
          unfolding s' by (simp add: s0)
      qed
      have diff: "copy_calls (drop (length (calls s)) (calls ?s')) \<noteq> []"
        if ne: "fs_equivalent env (fs s) e ?t = Inr False"
      proof -
        have "fs_equivalent env (fs ?s0) e ?t = Inr False"
          using ne by (simp add: s0)
        from paste_attempt_different_copies [OF ex0 this att0]
        have "copy_calls (drop (length (calls ?s0)) (calls ?s')) \<noteq> []"
          unfolding s' .
        then show ?thesis
          using rest by (simp add: s0 copy_calls_def)
      qed
      show ?thesis
        using True att c1 pre mem same diff by auto
    next
      case natt: False
      then have "policy ?s0 = SkipAll
         \<or> policy ?s0 \<noteq> ReplaceAll
           \<and> userDecision env (prompts ?s0) (filename e) \<noteq> ReplaceOnce
           \<and> userDecision env (prompts ?s0) (filename e) \<noteq> ReplaceAll"
        by (auto simp: s0)
      from paste_attempt_skipped [OF ex0 this]
      have sk: "calls ?s' = calls s @ [Current_path, Exists ?t]" "fs ?s' = fs s"
          "successes ?s' = successes s" "failedItems ?s' = failedItems s"
        unfolding s' by (simp_all add: askUser_def record_call_def)
      have nomem: "Equivalent e ?t \<notin> set (drop (length (calls s)) (calls ?s'))"
        by (simp add: sk)
      show ?thesis
        using True natt c1 sk nomem by auto
    qed
  qed
qed

text \<open>
  The staged \<open>apple.txt\<close> and the one in the working directory are the same file. Under
  \<open>SkipAll\<close>, and when the user answers skip, the equivalence is never tested and nothing
  is counted; under \<open>ReplaceAll\<close> it is tested and the entry counted without a copy.
  Where the two are different files, \<open>ReplaceAll\<close> copies.
\<close>

theorem paste_policy_before_equivalence_witness:
  "fs_current_path linked_env (fs colliding_state) = Inr ''/home/user''
   \<and> fs_exists linked_env (fs colliding_state) (path_append ''/home/user'' (filename ''/clip/data/apple.txt'')) = Inr True
   \<and> fs_equivalent linked_env (fs colliding_state) ''/clip/data/apple.txt'' (path_append ''/home/user'' (filename ''/clip/data/apple.txt'')) = Inr True
   \<and> calls (snd (paste_entry linked_env [] ''/clip/data/apple.txt'' (colliding_state\<lparr>policy := SkipAll\<rparr>)))
       = [Current_path, Exists ''/home/user/apple.txt'']
   \<and> successes (snd (paste_entry linked_env [] ''/clip/data/apple.txt'' (colliding_state\<lparr>policy := SkipAll\<rparr>)))
       = \<lparr>files = 0, directories = 0, bytes = 0\<rparr>
   \<and> failedItems (snd (paste_entry linked_env [] ''/clip/data/apple.txt'' (colliding_state\<lparr>policy := SkipAll\<rparr>))) = []
   \<and> prompts (snd (paste_entry linked_env [] ''/clip/data/apple.txt'' (colliding_state\<lparr>policy := Unknown\<rparr>)))
       = [''apple.txt'']
   \<and> calls (snd (paste_entry linked_env [] ''/clip/data/apple.txt'' (colliding_state\<lparr>policy := Unknown\<rparr>)))
       = [Current_path, Exists ''/home/user/apple.txt'']
   \<and> successes (snd (paste_entry linked_env [] ''/clip/data/apple.txt'' (colliding_state\<lparr>policy := Unknown\<rparr>)))
       = \<lparr>files = 0, directories = 0, bytes = 0\<rparr>
   \<and> calls (snd (paste_entry linked_env [] ''/clip/data/apple.txt'' (colliding_state\<lparr>policy := ReplaceAll\<rparr>)))
       = [Current_path, Exists ''/home/user/apple.txt'', Exists ''/home/user/apple.txt'', Equivalent ''/clip/data/apple.txt'' ''/home/user/apple.txt'', Is_directory ''/clip/data/apple.txt'']
   \<and> successes (snd (paste_entry linked_env [] ''/clip/data/apple.txt'' (colliding_state\<lparr>policy := ReplaceAll\<rparr>)))
       = \<lparr>files = 1, directories = 0, bytes = 0\<rparr>
   \<and> fs_equivalent sample_env (fs colliding_state) ''/clip/data/apple.txt'' ''/home/user/apple.txt'' = Inr False
   \<and> calls (snd (paste_entry sample_env [] ''/clip/data/apple.txt'' (colliding_state\<lparr>policy := ReplaceAll\<rparr>)))
       = [Current_path, Exists ''/home/user/apple.txt'', Exists ''/home/user/apple.txt'', Equivalent ''/clip/data/apple.txt'' ''/home/user/apple.txt'', Is_directory ''/clip/data/apple.txt'',
          Copy_call ''/clip/data/apple.txt'' ''/home/user/apple.txt'' {create_hard_links, overwrite_existing, recursive, copy_symlinks},
          Is_directory ''/clip/data/apple.txt'']"
proof -
  have t: "path_append ''/home/user'' ''apple.txt'' = ''/home/user/apple.txt''" "filename ''/clip/data/apple.txt'' = ''apple.txt''"
    by (simp_all add: filename_def separator_def path_append_def)
  have h1: "fs_current_path linked_env (fs (colliding_state\<lparr>policy := p\<rparr>)) = Inr ''/home/user''" for p
    by (simp add: sample_defs linked_env_def)
  have h3: "fs_exists linked_env (fs (colliding_state\<lparr>policy := p\<rparr>))
      (path_append ''/home/user'' (filename ''/clip/data/apple.txt'')) = Inr True" for p
    by (simp add: sample_defs linked_env_def t)
  have h4: "fs_equivalent linked_env (fs colliding_state) ''/clip/data/apple.txt''
      ''/home/user/apple.txt'' = Inr True"
    by (simp add: sample_defs linked_env_def filename_def separator_def)
  have v: "calls colliding_state = []" "failedItems colliding_state = []"
      "prompts colliding_state = []"
      "successes colliding_state = \<lparr>files = 0, directories = 0, bytes = 0\<rparr>"
      "fs_is_directory linked_env (fs colliding_state) ''/clip/data/apple.txt'' \<noteq> Inr True"
      "userDecision linked_env [] ''apple.txt'' = SkipOnce"
    by (simp_all add: sample_defs linked_env_def t)
  have skip: "calls (snd (paste_entry linked_env [] ''/clip/data/apple.txt'' (colliding_state\<lparr>policy := SkipAll\<rparr>)))
       = [Current_path, Exists ''/home/user/apple.txt'']
     \<and> successes (snd (paste_entry linked_env [] ''/clip/data/apple.txt'' (colliding_state\<lparr>policy := SkipAll\<rparr>)))
       = \<lparr>files = 0, directories = 0, bytes = 0\<rparr>
     \<and> failedItems (snd (paste_entry linked_env [] ''/clip/data/apple.txt'' (colliding_state\<lparr>policy := SkipAll\<rparr>))) = []"
    using paste_policy_before_equivalence [OF h1 [of SkipAll] h3 [of SkipAll], where rs = "[]"]
    by (simp add: v t)
  have ask: "prompts (snd (paste_entry linked_env [] ''/clip/data/apple.txt'' (colliding_state\<lparr>policy := Unknown\<rparr>)))
       = [''apple.txt'']
     \<and> calls (snd (paste_entry linked_env [] ''/clip/data/apple.txt'' (colliding_state\<lparr>policy := Unknown\<rparr>)))
       = [Current_path, Exists ''/home/user/apple.txt'']
     \<and> successes (snd (paste_entry linked_env [] ''/clip/data/apple.txt'' (colliding_state\<lparr>policy := Unknown\<rparr>)))
       = \<lparr>files = 0, directories = 0, bytes = 0\<rparr>"
    using paste_policy_before_equivalence [OF h1 [of Unknown] h3 [of Unknown], where rs = "[]"]
    by (simp add: v t)
  have repl: "calls (snd (paste_entry linked_env [] ''/clip/data/apple.txt'' (colliding_state\<lparr>policy := ReplaceAll\<rparr>)))
       = [Current_path, Exists ''/home/user/apple.txt'', Exists ''/home/user/apple.txt'', Equivalent ''/clip/data/apple.txt'' ''/home/user/apple.txt'', Is_directory ''/clip/data/apple.txt'']
     \<and> successes (snd (paste_entry linked_env [] ''/clip/data/apple.txt'' (colliding_state\<lparr>policy := ReplaceAll\<rparr>)))
       = \<lparr>files = 1, directories = 0, bytes = 0\<rparr>"
    using paste_policy_before_equivalence [OF h1 [of ReplaceAll] h3 [of ReplaceAll], where rs = "[]"] h4
    by (simp add: v t)
  have other: "fs_equivalent sample_env (fs colliding_state) ''/clip/data/apple.txt'' ''/home/user/apple.txt'' = Inr False"
      "calls (snd (paste_entry sample_env [] ''/clip/data/apple.txt'' (colliding_state\<lparr>policy := ReplaceAll\<rparr>)))
       = [Current_path, Exists ''/home/user/apple.txt'', Exists ''/home/user/apple.txt'', Equivalent ''/clip/data/apple.txt'' ''/home/user/apple.txt'', Is_directory ''/clip/data/apple.txt'',
          Copy_call ''/clip/data/apple.txt'' ''/home/user/apple.txt'' {create_hard_links, overwrite_existing, recursive, copy_symlinks},
          Is_directory ''/clip/data/apple.txt'']"
    by (simp_all add: run_defs sample_defs)
  have h1': "fs_current_path linked_env (fs colliding_state) = Inr ''/home/user''"
    and h3': "fs_exists linked_env (fs colliding_state) (path_append ''/home/user'' (filename ''/clip/data/apple.txt'')) = Inr True"
    and h4': "fs_equivalent linked_env (fs colliding_state) ''/clip/data/apple.txt'' (path_append ''/home/user'' (filename ''/clip/data/apple.txt'')) = Inr True"
    using h1 [of Unknown] h3 [of Unknown] h4 by (simp_all add: t)
  show ?thesis
    using h1' h3' h4' skip ask repl other by blast
qed

subsection \<open>SkipAll bypasses a collision\<close>

text \<open>
  C5. Under \<open>SkipAll\<close>, a round on an entry whose destination exists does nothing but
  read the working directory and test the existence: no \<open>fs::copy\<close> is called, the
  filesystem, the failures and the counters are unchanged.
\<close>

theorem paste_skip_all_bypasses:
  assumes "fs_current_path env (fs s) = Inr cwd"
    and "rs = [] \<or> list_ex (regex_match env (filename e)) rs"
    and "fs_exists env (fs s) (path_append cwd (filename e)) = Inr True"
    and "policy s = SkipAll"
  shows "paste_entry env rs e s
           = (None, s\<lparr>calls := calls s @ [Current_path, Exists (path_append cwd (filename e))]\<rparr>)
         \<and> copy_calls (calls (snd (paste_entry env rs e s))) = copy_calls (calls s)
         \<and> fs (snd (paste_entry env rs e s)) = fs s
         \<and> failedItems (snd (paste_entry env rs e s)) = failedItems s
         \<and> successes (snd (paste_entry env rs e s)) = successes s"
proof -
  let ?t = "path_append cwd (filename e)"
  let ?s0 = "record_call Current_path s"
  have step: "paste_entry env rs e s = (None, paste_attempt env e ?t ?s0)"
    using assms(1,2) by (rule paste_entry_selected)
  have "paste_try env e ?t ?s0 = (Inr (), record_call (Exists ?t) ?s0)"
    using assms(3,4) by (intro paste_try_skip_all) (simp_all add: record_call_def)
  then have "paste_attempt env e ?t ?s0 = s\<lparr>calls := calls s @ [Current_path, Exists ?t]\<rparr>"
    by (simp add: paste_attempt_def record_call_def)
  with step show ?thesis
    by (simp add: copy_calls_def)
qed

text \<open>
  Both staged names exist in the working directory and the policy is \<open>SkipAll\<close>: the whole
  paste copies nothing and counts nothing.
\<close>

theorem paste_skip_all_bypasses_witness:
  "fs_current_path sample_env (fs (colliding_state\<lparr>policy := SkipAll\<rparr>)) = Inr ''/home/user''
   \<and> fs_exists sample_env (fs (colliding_state\<lparr>policy := SkipAll\<rparr>))
       (path_append ''/home/user'' (filename ''/clip/data/apple.txt'')) = Inr True
   \<and> policy (colliding_state\<lparr>policy := SkipAll\<rparr>) = SkipAll
   \<and> paste_entry sample_env [] ''/clip/data/apple.txt'' (colliding_state\<lparr>policy := SkipAll\<rparr>)
       = (None, colliding_state\<lparr>policy := SkipAll, calls := [Current_path, Exists ''/home/user/apple.txt'']\<rparr>)
   \<and> copy_calls (calls (snd (paste sample_env (colliding_state\<lparr>policy := SkipAll\<rparr>)))) = []
   \<and> successes (snd (paste sample_env (colliding_state\<lparr>policy := SkipAll\<rparr>)))
       = \<lparr>files = 0, directories = 0, bytes = 0\<rparr>
   \<and> failedItems (snd (paste sample_env (colliding_state\<lparr>policy := SkipAll\<rparr>))) = []"
proof -
  let ?s = "colliding_state\<lparr>policy := SkipAll\<rparr>"
  have t: "path_append ''/home/user'' (filename ''/clip/data/apple.txt'') = ''/home/user/apple.txt''"
    by (simp add: filename_def separator_def path_append_def)
  have h1: "fs_current_path sample_env (fs ?s) = Inr ''/home/user''"
    by (simp add: sample_defs)
  have h2: "([]::string list) = [] \<or> list_ex (regex_match sample_env (filename ''/clip/data/apple.txt'')) []"
    by simp
  have h3: "fs_exists sample_env (fs ?s) (path_append ''/home/user'' (filename ''/clip/data/apple.txt'')) = Inr True"
    by (simp add: sample_defs t)
  have h4: "policy ?s = SkipAll"
    by simp
  have "paste_entry sample_env [] ''/clip/data/apple.txt'' ?s
      = (None, ?s\<lparr>calls := calls ?s @ [Current_path, Exists (path_append ''/home/user'' (filename ''/clip/data/apple.txt''))]\<rparr>)"
    using paste_skip_all_bypasses [OF h1 h2 h3 h4] by blast
  then have one: "paste_entry sample_env [] ''/clip/data/apple.txt'' ?s
      = (None, colliding_state\<lparr>policy := SkipAll, calls := [Current_path, Exists ''/home/user/apple.txt'']\<rparr>)"
    by (simp add: t sample_defs)
  have whole: "copy_calls (calls (snd (paste sample_env ?s))) = []"
      "successes (snd (paste sample_env ?s)) = \<lparr>files = 0, directories = 0, bytes = 0\<rparr>"
      "failedItems (snd (paste sample_env ?s)) = []"
    by (simp_all add: run_defs copy_calls_def sample_defs)
  show ?thesis
    using h1 h3 h4 one whole by blast
qed

subsection \<open>One retry after a cross-device error\<close>

text \<open>
  C6. Safe copy is off and the first run of \<open>actuallyCopyItem\<close> throws with
  \<open>cross_device_link\<close>. Then \<open>copyItem\<close> is exactly one more run of
  \<open>actuallyCopyItem\<close>, with \<open>use_regular_copy\<close> true, on the state the first run left;
  if that run throws too, one failure, with its code, is appended, otherwise none; and
  the retry makes at most one \<open>fs::copy\<close> call.
\<close>

theorem copyItem_cross_device_retry:
  assumes "\<not> use_safe_copy s"
    and "fst (actuallyCopyItem env f False s) = Inl cross_device_link"
  shows "copyItem env f s =
           (case actuallyCopyItem env f True (snd (actuallyCopyItem env f False s)) of
              (Inr u, s2) \<Rightarrow> s2
            | (Inl e2, s2) \<Rightarrow> record_failure f e2 s2)
         \<and> failedItems (copyItem env f s) =
           (case fst (actuallyCopyItem env f True (snd (actuallyCopyItem env f False s))) of
              Inr u \<Rightarrow> failedItems s
            | Inl e2 \<Rightarrow> failedItems s @ [(f, e2)])
         \<and> length (copy_calls (calls (copyItem env f s)))
           \<le> length (copy_calls (calls (snd (actuallyCopyItem env f False s)))) + 1"
proof -
  obtain s1 where first: "actuallyCopyItem env f False s = (Inl cross_device_link, s1)"
    using assms(2) by (cases "actuallyCopyItem env f False s") auto
  obtain r s2 where retry: "actuallyCopyItem env f True s1 = (r, s2)"
    by (cases "actuallyCopyItem env f True s1")
  have keep1: "failedItems s1 = failedItems s" "use_safe_copy s1 = use_safe_copy s"
    using actuallyCopyItem_frame [OF first] by simp_all
  have keep2: "failedItems s2 = failedItems s1"
    using actuallyCopyItem_frame [OF retry] by simp
  have eq: "copyItem env f s = (case r of Inr u \<Rightarrow> s2 | Inl e2 \<Rightarrow> record_failure f e2 s2)"
    using assms(1) first retry keep1 by (simp add: copyItem_def split: sum.splits)
  have count: "length (copy_calls (calls s2)) \<le> length (copy_calls (calls s1)) + 1"
    using actuallyCopyItem_copies [OF retry] .
  show ?thesis
    using eq first retry keep1 keep2 count
    by (auto simp: record_failure_def split: sum.splits)
qed

text \<open>
  Every copy fails with \<open>cross_device_link\<close>: a fast copy, a safe copy, one failure.
\<close>

theorem copyItem_cross_device_retry_witness:
  "\<not> use_safe_copy sample_state
   \<and> fst (actuallyCopyItem cross_device_env ''/home/user/a.txt'' False sample_state) = Inl cross_device_link
   \<and> failedItems (copyItem cross_device_env ''/home/user/a.txt'' sample_state)
       = [(''/home/user/a.txt'', cross_device_link)]
   \<and> copy_calls (calls (copyItem cross_device_env ''/home/user/a.txt'' sample_state))
       = [Copy_call ''/home/user/a.txt'' ''/clip/data/a.txt''
            {create_hard_links, overwrite_existing, recursive, copy_symlinks},
          Copy_call ''/home/user/a.txt'' ''/clip/data/a.txt''
            {overwrite_existing, recursive, copy_symlinks}]"
proof -
  have h1: "\<not> use_safe_copy sample_state"
    by (simp add: sample_state_def)
  have h2: "fst (actuallyCopyItem cross_device_env ''/home/user/a.txt'' False sample_state) = Inl cross_device_link"
    by (simp add: actuallyCopyItem_def prim_defs cross_device_env_def sample_env_def sample_state_def
        filename_def separator_def path_append_def)
  have r: "fst (actuallyCopyItem cross_device_env ''/home/user/a.txt'' True
             (snd (actuallyCopyItem cross_device_env ''/home/user/a.txt'' False sample_state)))
           = Inl cross_device_link"
    by (simp add: actuallyCopyItem_def prim_defs cross_device_env_def sample_env_def sample_state_def
        filename_def separator_def path_append_def)
  have c: "copy_calls (calls (copyItem cross_device_env ''/home/user/a.txt'' sample_state))
       = [Copy_call ''/home/user/a.txt'' ''/clip/data/a.txt''
            {create_hard_links, overwrite_existing, recursive, copy_symlinks},
          Copy_call ''/home/user/a.txt'' ''/clip/data/a.txt''
            {overwrite_existing, recursive, copy_symlinks}]"
    by (simp add: copyItem_def actuallyCopyItem_def prim_defs cross_device_env_def sample_env_def
        sample_state_def filename_def separator_def path_append_def copy_calls_def)
  have f0: "failedItems sample_state = []"
    by (simp add: sample_state_def)
  have "failedItems (copyItem cross_device_env ''/home/user/a.txt'' sample_state) =
           (case fst (actuallyCopyItem cross_device_env ''/home/user/a.txt'' True
                   (snd (actuallyCopyItem cross_device_env ''/home/user/a.txt'' False sample_state))) of
              Inr u \<Rightarrow> failedItems sample_state
            | Inl e2 \<Rightarrow> failedItems sample_state @ [(''/home/user/a.txt'', e2)])"
    using copyItem_cross_device_retry [OF h1 h2] by blast
  then have f: "failedItems (copyItem cross_device_env ''/home/user/a.txt'' sample_state)
       = [(''/home/user/a.txt'', cross_device_link)]"
    by (simp add: r f0)
  show ?thesis
    using h1 h2 f c by blast
qed

subsection \<open>The name a directory is stored under\<close>

text \<open>
  C7. For a directory, \<open>copyItem\<close> creates and fills \<open>path.data / target\<close>, where
  \<open>target\<close> is the filename of the source when that is not empty and the filename of
  the parent path of the source otherwise.
\<close>

theorem copyItem_directory_name:
  assumes "fs_is_directory env (fs s) f = Inr True"
  shows "directory_target f = (if filename f \<noteq> [] then filename f else filename (parent_path f))
         \<and> prefix (calls s @ [Is_directory f,
               Create_directories (path_append (path_data s) (directory_target f))])
             (calls (copyItem env f s))
         \<and> (snd (fs_create_directories env (fs s) (path_append (path_data s) (directory_target f))) = None \<longrightarrow>
             prefix (calls s @ [Is_directory f,
                 Create_directories (path_append (path_data s) (directory_target f)),
                 Copy_call f (path_append (path_data s) (directory_target f)) (opts s)])
               (calls (copyItem env f s)))"
  using actuallyCopyItem_directory [OF assms, of "use_safe_copy s"] copyItem_calls_prefix [of env f s]
  by (auto simp: directory_target_def intro: prefix_order.trans)

text \<open>
  A path with a trailing separator is stored under the name of its parent, a plain path
  under its own; the root has neither.
\<close>

theorem copyItem_directory_name_witness:
  "fs_is_directory sample_env (fs sample_state) ''/home/user/photos/'' = Inr True
   \<and> filename ''/home/user/photos/'' = []
   \<and> directory_target ''/home/user/photos/'' = ''photos''
   \<and> directory_target ''/home/user/photos'' = ''photos''
   \<and> directory_target ''/'' = []
   \<and> calls (copyItem sample_env ''/home/user/photos/'' sample_state)
       = [Is_directory ''/home/user/photos/'', Create_directories ''/clip/data/photos'',
          Copy_call ''/home/user/photos/'' ''/clip/data/photos'' {overwrite_existing, recursive, copy_symlinks},
          Is_directory ''/home/user/photos/'']"
proof -
  have h: "fs_is_directory sample_env (fs sample_state) ''/home/user/photos/'' = Inr True"
    by (simp add: sample_env_def filename_def separator_def)
  have t: "filename ''/home/user/photos/'' = []" "directory_target ''/home/user/photos/'' = ''photos''"
      "directory_target ''/home/user/photos'' = ''photos''" "directory_target ''/'' = []"
    by (simp_all add: directory_target_def filename_def parent_path_def separator_def)
  have c: "calls (copyItem sample_env ''/home/user/photos/'' sample_state)
       = [Is_directory ''/home/user/photos/'', Create_directories ''/clip/data/photos'',
          Copy_call ''/home/user/photos/'' ''/clip/data/photos'' {overwrite_existing, recursive, copy_symlinks},
          Is_directory ''/home/user/photos/'']"
    by (simp add: copyItem_def actuallyCopyItem_def prim_defs sample_env_def
        sample_state_def t path_append_def separator_def filename_def)
  show ?thesis
    using copyItem_directory_name [OF h] h t c by simp
qed

subsection \<open>The filter patterns\<close>



subsection \<open>An invalid pattern\<close>

text \<open>
  C9. If one of the items does not compile as a regular expression, \<open>paste\<close> ends with
  the \<open>std::regex_error\<close> in the state it started in: no entry visited, no filesystem
  call, no success and no failure.
\<close>

theorem paste_invalid_pattern_aborts:
  assumes "list_ex (\<lambda>p. regex_compile env p = None) (items s)"
  shows "paste env s = (Some regex_error, s)"
proof -
  have "items s \<noteq> []"
    using assms by auto
  moreover have "compile_all (regex_compile env) (items s) = None"
    using assms by (simp add: compile_all_None)
  ultimately show ?thesis
    by (simp add: paste_def)
qed

text \<open>
  The second pattern, a lone star, does not compile.
\<close>

theorem paste_invalid_pattern_aborts_witness:
  "list_ex (\<lambda>p. regex_compile sample_env p = None) (items (sample_state\<lparr>items := [''a.*'', ''*'']\<rparr>))
   \<and> paste sample_env (sample_state\<lparr>items := [''a.*'', ''*'']\<rparr>)
       = (Some regex_error, sample_state\<lparr>items := [''a.*'', ''*'']\<rparr>)
   \<and> calls (snd (paste sample_env (sample_state\<lparr>items := [''a.*'', ''*'']\<rparr>))) = []
   \<and> successes (snd (paste sample_env (sample_state\<lparr>items := [''a.*'', ''*'']\<rparr>)))
       = \<lparr>files = 0, directories = 0, bytes = 0\<rparr>
   \<and> failedItems (snd (paste sample_env (sample_state\<lparr>items := [''a.*'', ''*'']\<rparr>))) = []"
proof -
  have h: "list_ex (\<lambda>p. regex_compile sample_env p = None) (items (sample_state\<lparr>items := [''a.*'', ''*'']\<rparr>))"
    by (simp add: sample_env_def)
  have r: "paste sample_env (sample_state\<lparr>items := [''a.*'', ''*'']\<rparr>)
       = (Some regex_error, sample_state\<lparr>items := [''a.*'', ''*'']\<rparr>)"
    using paste_invalid_pattern_aborts [OF h] .
  have v: "calls (sample_state\<lparr>items := [''a.*'', ''*'']\<rparr>) = []"
      "successes (sample_state\<lparr>items := [''a.*'', ''*'']\<rparr>) = \<lparr>files = 0, directories = 0, bytes = 0\<rparr>"
      "failedItems (sample_state\<lparr>items := [''a.*'', ''*'']\<rparr>) = []"
    by (simp_all add: sample_state_def)
  show ?thesis
    using h r v by simp
qed

subsection \<open>A removal that matches nothing\<close>

text \<open>
  C10. The patterns compile. Text clipboard: if deleting every match leaves the length of
  the text unchanged, \<open>removeRegex\<close> exits with \<open>EXIT_FAILURE\<close> and the file is not
  written. File clipboard: if both counters are zero after the loop, it exits with
  \<open>EXIT_FAILURE\<close>; this is the case when the counters start at zero and no pattern
  matches the filename of any entry, and then nothing was removed either.
\<close>

theorem removeRegex_nothing_matched_exits:
  assumes "removal_patterns env s = Some rs"
  shows "(fs_is_regular_file env (fs s) (path_data_raw s) = Inr True
          \<and> length (replace_all env rs (fileContents env (fs s) (path_data_raw s)))
              = length (fileContents env (fs s) (path_data_raw s)) \<longrightarrow>
          removeRegex env s
            = (Some (exit_call EXIT_FAILURE),
               s\<lparr>calls := calls s @ [Is_regular_file (path_data_raw s), File_contents (path_data_raw s)]\<rparr>))
         \<and> (fs_is_regular_file env (fs s) (path_data_raw s) = Inr False
            \<and> fs_directory_iterator env (fs s) (path_data s) = Inr entries
            \<and> files (successes (remove_entries env rs entries
                  (s\<lparr>calls := calls s @ [Is_regular_file (path_data_raw s), Directory_iterator (path_data s)]\<rparr>))) = 0
            \<and> directories (successes (remove_entries env rs entries
                  (s\<lparr>calls := calls s @ [Is_regular_file (path_data_raw s), Directory_iterator (path_data s)]\<rparr>))) = 0 \<longrightarrow>
            removeRegex env s
              = (Some (exit_call EXIT_FAILURE),
                 remove_entries env rs entries
                  (s\<lparr>calls := calls s @ [Is_regular_file (path_data_raw s), Directory_iterator (path_data s)]\<rparr>)))
         \<and> (fs_is_regular_file env (fs s) (path_data_raw s) = Inr False
            \<and> fs_directory_iterator env (fs s) (path_data s) = Inr entries
            \<and> files (successes s) = 0 \<and> directories (successes s) = 0
            \<and> \<not> list_ex (\<lambda>entry. list_ex (regex_match env (filename entry)) rs) entries \<longrightarrow>
            removeRegex env s
              = (Some (exit_call EXIT_FAILURE),
                 s\<lparr>calls := calls s @ [Is_regular_file (path_data_raw s), Directory_iterator (path_data s)]\<rparr>))"
proof (intro conjI impI)
  assume "fs_is_regular_file env (fs s) (path_data_raw s) = Inr True
          \<and> length (replace_all env rs (fileContents env (fs s) (path_data_raw s)))
              = length (fileContents env (fs s) (path_data_raw s))"
  then show "removeRegex env s
            = (Some (exit_call EXIT_FAILURE),
               s\<lparr>calls := calls s @ [Is_regular_file (path_data_raw s), File_contents (path_data_raw s)]\<rparr>)"
    using assms
    by (simp add: removeRegex_def is_regular_file_def query_def record_call_def Let_def)
next
  let ?s2 = "s\<lparr>calls := calls s @ [Is_regular_file (path_data_raw s), Directory_iterator (path_data s)]\<rparr>"
  assume "fs_is_regular_file env (fs s) (path_data_raw s) = Inr False
            \<and> fs_directory_iterator env (fs s) (path_data s) = Inr entries
            \<and> files (successes (remove_entries env rs entries ?s2)) = 0
            \<and> directories (successes (remove_entries env rs entries ?s2)) = 0"
  then show "removeRegex env s = (Some (exit_call EXIT_FAILURE), remove_entries env rs entries ?s2)"
    using assms
    by (simp add: removeRegex_def is_regular_file_def directory_iterator_def query_def
        record_call_def Let_def)
next
  let ?s2 = "s\<lparr>calls := calls s @ [Is_regular_file (path_data_raw s), Directory_iterator (path_data s)]\<rparr>"
  assume h: "fs_is_regular_file env (fs s) (path_data_raw s) = Inr False
            \<and> fs_directory_iterator env (fs s) (path_data s) = Inr entries
            \<and> files (successes s) = 0 \<and> directories (successes s) = 0
            \<and> \<not> list_ex (\<lambda>entry. list_ex (regex_match env (filename entry)) rs) entries"
  then have "remove_entries env rs entries ?s2 = ?s2"
    by (intro remove_entries_no_match) simp
  then show "removeRegex env s = (Some (exit_call EXIT_FAILURE), ?s2)"
    using assms h
    by (simp add: removeRegex_def is_regular_file_def directory_iterator_def query_def
        record_call_def Let_def)
qed

text \<open>
  The pattern \<open>x\<close> on the text \<open>hello\<close>, and on the two staged files.
\<close>

theorem removeRegex_nothing_matched_exits_witness:
  "removal_patterns sample_env (sample_state\<lparr>items := [''x'']\<rparr>) = Some [''x'']
   \<and> fs_is_regular_file sample_env [''/clip/data/rawdata.clipboard''] ''/clip/data/rawdata.clipboard'' = Inr True
   \<and> replace_all sample_env [''x''] ''hello'' = ''hello''
   \<and> removeRegex sample_env (sample_state\<lparr>items := [''x''], fs := [''/clip/data/rawdata.clipboard'']\<rparr>)
       = (Some (exit_call EXIT_FAILURE),
          sample_state\<lparr>items := [''x''], fs := [''/clip/data/rawdata.clipboard''],
            calls := [Is_regular_file ''/clip/data/rawdata.clipboard'',
                      File_contents ''/clip/data/rawdata.clipboard'']\<rparr>)
   \<and> fs_is_regular_file sample_env [] ''/clip/data/rawdata.clipboard'' = Inr False
   \<and> \<not> list_ex (\<lambda>entry. list_ex (regex_match sample_env (filename entry)) [''x'']) [''/clip/data/apple.txt'', ''/clip/data/banana.txt'']
   \<and> removeRegex sample_env (sample_state\<lparr>items := [''x'']\<rparr>)
       = (Some (exit_call EXIT_FAILURE),
          sample_state\<lparr>items := [''x''],
            calls := [Is_regular_file ''/clip/data/rawdata.clipboard'',
                      Directory_iterator ''/clip/data'']\<rparr>)"
proof -
  let ?text = "sample_state\<lparr>items := [''x''], fs := [''/clip/data/rawdata.clipboard'']\<rparr>"
  let ?tree = "sample_state\<lparr>items := [''x'']\<rparr>"
  have p: "removal_patterns sample_env ?text = Some [''x'']" "removal_patterns sample_env ?tree = Some [''x'']"
    by (simp_all add: removal_patterns_def sample_defs)
  have raw: "path_data_raw ?text = ''/clip/data/rawdata.clipboard''" "fs ?text = [''/clip/data/rawdata.clipboard'']"
      "path_data_raw ?tree = ''/clip/data/rawdata.clipboard''" "fs ?tree = []"
      "path_data ?tree = ''/clip/data''" "calls ?text = []" "calls ?tree = []"
      "files (successes sample_state) = 0" "directories (successes sample_state) = 0"
    by (simp_all add: sample_defs)
  have t1: "fs_is_regular_file sample_env [''/clip/data/rawdata.clipboard''] ''/clip/data/rawdata.clipboard'' = Inr True"
    by (simp add: sample_defs)
  have t2: "replace_all sample_env [''x''] ''hello'' = ''hello''"
      "fileContents sample_env [''/clip/data/rawdata.clipboard''] ''/clip/data/rawdata.clipboard'' = ''hello''"
    by (simp_all add: replace_all_def sample_defs)
  have flat: "removeRegex sample_env ?text
       = (Some (exit_call EXIT_FAILURE),
          ?text\<lparr>calls := calls ?text @ [Is_regular_file (path_data_raw ?text), File_contents (path_data_raw ?text)]\<rparr>)"
    using removeRegex_nothing_matched_exits [OF p(1), THEN conjunct1] t1 t2
    by (simp add: raw)
  have f1: "fs_is_regular_file sample_env [] ''/clip/data/rawdata.clipboard'' = Inr False"
    by (simp add: sample_defs)
  have f2: "fs_directory_iterator sample_env [] ''/clip/data'' = Inr [''/clip/data/apple.txt'', ''/clip/data/banana.txt'']"
    by (simp add: sample_defs)
  have f3: "\<not> list_ex (\<lambda>entry. list_ex (regex_match sample_env (filename entry)) [''x'']) [''/clip/data/apple.txt'', ''/clip/data/banana.txt'']"
    by (simp add: sample_env_def filename_def separator_def)
  have tree: "removeRegex sample_env ?tree
       = (Some (exit_call EXIT_FAILURE),
          ?tree\<lparr>calls := calls ?tree @ [Is_regular_file (path_data_raw ?tree), Directory_iterator (path_data ?tree)]\<rparr>)"
    using removeRegex_nothing_matched_exits [OF p(2), where entries = "[''/clip/data/apple.txt'', ''/clip/data/banana.txt'']", THEN conjunct2, THEN conjunct2]
      f1 f2 f3
    by (simp add: raw)
  show ?thesis
    using p(2) t1 t2(1) flat f1 f3 tree by (simp add: raw)
qed

end
